theory Spec2Isabelle
  imports
    Main
    "HOL-Library.Char_ord"
    "HOL-Library.List_Lexorder"
    "HOL-Library.Option_ord"
    "HOL-Library.AList"
    "HOL-Library.Multiset"
begin

section \<open>JavaScript values and objects\<close>

text \<open>
  The blocks of \<^verbatim>\<open>BlockChain.js\<close> are plain JavaScript objects whose fields come
  from JSON request bodies, from \<^verbatim>\<open>new Date()\<close> and from the MongoDB driver. A value
  is therefore one of the JSON shapes, a \<^verbatim>\<open>Date\<close> (its time value in milliseconds,
  \<open>None\<close> for an Invalid Date), an \<^verbatim>\<open>ObjectId\<close> or \<^verbatim>\<open>undefined\<close>. An object is the
  list of its own properties in enumeration order (for the property names of this
  program, which are never array indices, that is insertion order). Numbers are the
  integers; strings are lists of 8-bit characters.
\<close>

datatype jval =
    JUndefined
  | JNull
  | JBool bool
  | JNum int
  | JStr string
  | JDate "int option"
  | JOid nat
  | JArr "jval list"
  | JObj "(string \<times> jval) list"

type_synonym obj = "(string \<times> jval) list"

text \<open>\<^verbatim>\<open>o[k]\<close>: a missing property reads as \<^verbatim>\<open>undefined\<close>.\<close>

definition propOf :: "obj \<Rightarrow> string \<Rightarrow> jval" where
  "propOf b k = (case map_of b k of Some v \<Rightarrow> v | None \<Rightarrow> JUndefined)"

text \<open>\<^verbatim>\<open>v.k\<close> on a value that is known not to be null or undefined.\<close>

definition getProp :: "jval \<Rightarrow> string \<Rightarrow> jval" where
  "getProp v k = (case v of JObj b \<Rightarrow> propOf b k | _ \<Rightarrow> JUndefined)"

text \<open>
  \<^verbatim>\<open>o[k] = v\<close> is \<^const>\<open>AList.update\<close>: it replaces the value in place when the
  property exists and appends the property otherwise. \<^verbatim>\<open>delete o[k]\<close> is
  \<^const>\<open>AList.delete\<close>.
\<close>

text \<open>JavaScript truthiness, as used by \<^verbatim>\<open>!x\<close>, \<^verbatim>\<open>x || y\<close> and \<^verbatim>\<open>x && y\<close>.\<close>

fun truthy :: "jval \<Rightarrow> bool" where
  "truthy JUndefined = False"
| "truthy JNull = False"
| "truthy (JBool b) = b"
| "truthy (JNum n) = (n \<noteq> 0)"
| "truthy (JStr s) = (s \<noteq> [])"
| "truthy _ = True"

text \<open>
  \<^verbatim>\<open>a === b\<close> for two values that come from different places (a stored document, a
  request, a literal): primitives compare by value, while two objects, arrays, dates or
  ObjectIds are different references and never equal.
\<close>

fun strictEq :: "jval \<Rightarrow> jval \<Rightarrow> bool" where
  "strictEq JUndefined JUndefined = True"
| "strictEq JNull JNull = True"
| "strictEq (JBool a) (JBool b) = (a = b)"
| "strictEq (JNum a) (JNum b) = (a = b)"
| "strictEq (JStr a) (JStr b) = (a = b)"
| "strictEq _ _ = False"

fun isArray :: "jval \<Rightarrow> bool" where
  "isArray (JArr xs) = True"
| "isArray _ = False"

text \<open>\<^verbatim>\<open>xs.includes(v)\<close> on the elements of an array.\<close>

definition arrayIncludes :: "jval list \<Rightarrow> jval \<Rightarrow> bool" where
  "arrayIncludes xs v = list_ex (\<lambda>x. strictEq x v) xs"

section \<open>JSON.stringify\<close>

definition digitChar :: "nat \<Rightarrow> char" where
  "digitChar d = ''0123456789abcdef'' ! d"

fun decNat :: "nat \<Rightarrow> string" where
  "decNat n = (if n < 10 then [digitChar n] else decNat (n div 10) @ [digitChar (n mod 10)])"

definition decInt :: "int \<Rightarrow> string" where
  "decInt i = (if i < 0 then CHR ''-'' # decNat (nat (- i)) else decNat (nat i))"

fun hexNat :: "nat \<Rightarrow> string" where
  "hexNat n = (if n < 16 then [digitChar n] else hexNat (n div 16) @ [digitChar (n mod 16)])"

text \<open>\<^verbatim>\<open>ObjectId.toHexString()\<close>: 24 hexadecimal digits.\<close>

definition oidHex :: "nat \<Rightarrow> string" where
  "oidHex n = replicate (24 - length (hexNat n)) CHR ''0'' @ hexNat n"

text \<open>The escapes of \<^verbatim>\<open>JSON.stringify\<close> on one character of a string.\<close>

definition escapeChar :: "char \<Rightarrow> string" where
  "escapeChar c =
     (if c = CHR 0x22 then [CHR 0x5C, CHR 0x22]
      else if c = CHR 0x5C then [CHR 0x5C, CHR 0x5C]
      else if c = CHR 0x08 then [CHR 0x5C, CHR ''b'']
      else if c = CHR 0x09 then [CHR 0x5C, CHR ''t'']
      else if c = CHR 0x0A then [CHR 0x5C, CHR ''n'']
      else if c = CHR 0x0C then [CHR 0x5C, CHR ''f'']
      else if c = CHR 0x0D then [CHR 0x5C, CHR ''r'']
      else if (of_char c :: nat) < 32
        then [CHR 0x5C, CHR ''u'', CHR ''0'', CHR ''0'',
              digitChar (of_char c div 16), digitChar (of_char c mod 16)]
      else [c])"

definition quoteJSON :: "string \<Rightarrow> string" where
  "quoteJSON s = CHR 0x22 # concat (map escapeChar s) @ [CHR 0x22]"

fun join :: "string \<Rightarrow> string list \<Rightarrow> string" where
  "join sep [] = []"
| "join sep [x] = x"
| "join sep (x # y # ys) = x @ sep @ join sep (y # ys)"

text \<open>
  \<^verbatim>\<open>JSON.stringify(v)\<close> for a value inside an object or array; \<open>fmt\<close> is
  \<^verbatim>\<open>Date.prototype.toISOString\<close>. A property whose value is \<^verbatim>\<open>undefined\<close> is left
  out of an object, an \<^verbatim>\<open>undefined\<close> array element is written \<^verbatim>\<open>null\<close>, and the
  properties of an object are written in their enumeration order.
\<close>

fun json :: "(int \<Rightarrow> string) \<Rightarrow> jval \<Rightarrow> string" where
  "json fmt JUndefined = ''null''"
| "json fmt JNull = ''null''"
| "json fmt (JBool b) = (if b then ''true'' else ''false'')"
| "json fmt (JNum n) = decInt n"
| "json fmt (JStr s) = quoteJSON s"
| "json fmt (JDate None) = ''null''"
| "json fmt (JDate (Some t)) = quoteJSON (fmt t)"
| "json fmt (JOid n) = quoteJSON (oidHex n)"
| "json fmt (JArr xs) = ''['' @ join '','' (map (json fmt) xs) @ '']''"
| "json fmt (JObj kvs) =
     ''{'' @ join '',''
        (map (\<lambda>kv. quoteJSON (fst kv) @ '':'' @ json fmt (snd kv))
           (filter (\<lambda>kv. snd kv \<noteq> JUndefined) kvs)) @ ''}''"

section \<open>The environment of the server\<close>

text \<open>
  What the program takes from outside its source file: the SHA-256 digest of
  \<^verbatim>\<open>crypto\<close> (hex output), \<^verbatim>\<open>Date.prototype.toISOString\<close>, the \<^verbatim>\<open>Date\<close>
  constructor on a value that is not already a date, the lookup in the users collection
  (\<^verbatim>\<open>new ObjectId(userId)\<close> followed by \<^verbatim>\<open>usersCollection.findOne\<close>), the HTTP
  request to the auth server, and whether a call to the blocks collection throws.
\<close>

datatype user_lookup = LookupThrows | UserNotFound | UserFound obj

datatype api_reply = FetchThrows | HttpNotOk nat | HttpOk jval

datatype dbop = DbFind | DbFindOne | DbInsertOne

record env =
  sha256hex :: "string \<Rightarrow> string"
  toISOString :: "int \<Rightarrow> string"
  dateOf :: "jval \<Rightarrow> int option"
  usersFindOne :: "string \<Rightarrow> user_lookup"
  fetchUserRole :: "string \<Rightarrow> api_reply"
  dbThrows :: "dbop \<Rightarrow> bool"

text \<open>The result of an awaited call: it threw, or it returned a value.\<close>

datatype 'a attempt = Threw | Returned 'a

section \<open>createHash and isBlockValid\<close>

text \<open>
  \<^verbatim>\<open>createHash\<close> copies the block, deletes \<^verbatim>\<open>hash\<close> and \<^verbatim>\<open>_id\<close>, builds
  \<^verbatim>\<open>orderedBlock\<close> by assigning the properties in the order of the sorted keys, and
  digests \<^verbatim>\<open>JSON.stringify(orderedBlock)\<close>. Only the top-level keys are sorted: the
  values are assigned as they are.
\<close>

definition blockForHashing :: "obj \<Rightarrow> obj" where
  "blockForHashing block = AList.delete ''_id'' (AList.delete ''hash'' block)"

definition orderedBlock :: "obj \<Rightarrow> obj" where
  "orderedBlock block =
     fold (\<lambda>key acc. AList.update key (propOf (blockForHashing block) key) acc)
       (sort (map fst (blockForHashing block))) []"

definition hashInput :: "env \<Rightarrow> obj \<Rightarrow> string" where
  "hashInput e block = json (toISOString e) (JObj (orderedBlock block))"

definition createHash :: "env \<Rightarrow> obj \<Rightarrow> string" where
  "createHash e block = sha256hex e (hashInput e block)"

definition isBlockValid :: "env \<Rightarrow> obj \<Rightarrow> bool" where
  "isBlockValid e block = strictEq (propOf block ''hash'') (JStr (createHash e block))"

section \<open>The blocks collection\<close>

text \<open>
  The collection is the list of its documents in insertion order, with the counter from
  which the driver makes the next ObjectId. A document is read back as the collection
  holds it.
\<close>

record store =
  blocksCollection :: "obj list"
  nextId :: nat

text \<open>
  The key of \<^verbatim>\<open>sort({ creationDate: 1 })\<close>. addBlock stores a valid \<^verbatim>\<open>Date\<close> in every
  block; a block without one sorts before all dated blocks. Documents with equal keys
  keep their insertion order (MongoDB leaves their order open).
\<close>

definition dateKey :: "obj \<Rightarrow> int option" where
  "dateKey b = (case propOf b ''creationDate'' of JDate t \<Rightarrow> t | _ \<Rightarrow> None)"

definition sortByCreationDate :: "obj list \<Rightarrow> obj list" where
  "sortByCreationDate bs = sort_key dateKey bs"

text \<open>
  \<^verbatim>\<open>findOne({}, { sort: { creationDate: -1 } })\<close>: a block with the greatest
  \<^verbatim>\<open>creationDate\<close>, the earliest inserted one among equals.
\<close>

fun latestBlock :: "obj list \<Rightarrow> obj option" where
  "latestBlock [] = None"
| "latestBlock (b # bs) =
     (case latestBlock bs of
        None \<Rightarrow> Some b
      | Some m \<Rightarrow> if dateKey m \<le> dateKey b then Some b else Some m)"

section \<open>validateChain\<close>

text \<open>
  The result object of validateChain: \<^verbatim>\<open>valid\<close>, \<^verbatim>\<open>message\<close> and, where the code
  sets it, \<^verbatim>\<open>blockIndex\<close>. The messages are the seven texts of the source, each with
  the \<^verbatim>\<open>_id\<close> it quotes: the chain is empty; the chain is valid; invalid first block,
  the hash does not match the content; invalid first block, \<^verbatim>\<open>previousHash\<close> must be
  \<^verbatim>\<open>"0"\<close>; invalid block, the hash does not match the content; invalid chain, the block
  has a wrong previous hash; error while validating (the read threw).
\<close>

datatype vmessage =
    ChainEmptyMsg
  | ChainValidMsg
  | FirstBlockHashMsg jval
  | FirstBlockPreviousHashMsg jval
  | BlockHashMsg jval
  | BlockPreviousHashMsg jval
  | ValidationErrorMsg

record validation =
  valid :: bool
  message :: vmessage
  blockIndex :: "nat option"

text \<open>The \<^verbatim>\<open>for\<close> loop of validateChain, from index \<open>i\<close> on.\<close>

fun validateRest :: "env \<Rightarrow> jval \<Rightarrow> nat \<Rightarrow> obj list \<Rightarrow> validation" where
  "validateRest e previousHash i [] =
     \<lparr>valid = True, message = ChainValidMsg, blockIndex = None\<rparr>"
| "validateRest e previousHash i (block # rest) =
     (if \<not> isBlockValid e block
        then \<lparr>valid = False, message = BlockHashMsg (propOf block ''_id''), blockIndex = Some i\<rparr>
      else if \<not> strictEq (propOf block ''previousHash'') previousHash
        then \<lparr>valid = False, message = BlockPreviousHashMsg (propOf block ''_id''),
              blockIndex = Some i\<rparr>
      else validateRest e (propOf block ''hash'') (Suc i) rest)"

text \<open>The body of validateChain on the array \<^verbatim>\<open>blocks\<close> it read.\<close>

definition validateBlocks :: "env \<Rightarrow> obj list \<Rightarrow> validation" where
  "validateBlocks e blocks =
     (case blocks of
        [] \<Rightarrow> \<lparr>valid = True, message = ChainEmptyMsg, blockIndex = None\<rparr>
      | firstBlock # rest \<Rightarrow>
          if \<not> isBlockValid e firstBlock
            then \<lparr>valid = False, message = FirstBlockHashMsg (propOf firstBlock ''_id''),
                  blockIndex = Some 0\<rparr>
          else if \<not> strictEq (propOf firstBlock ''previousHash'') (JStr ''0'')
            then \<lparr>valid = False, message = FirstBlockPreviousHashMsg (propOf firstBlock ''_id''),
                  blockIndex = Some 0\<rparr>
          else validateRest e (propOf firstBlock ''hash'') 1 rest)"

definition validateChain :: "env \<Rightarrow> store \<Rightarrow> validation" where
  "validateChain e s =
     (if dbThrows e DbFind
        then \<lparr>valid = False, message = ValidationErrorMsg, blockIndex = None\<rparr>
      else validateBlocks e (sortByCreationDate (blocksCollection s)))"

section \<open>Queries and insertOne on the blocks collection\<close>

text \<open>
  A query such as \<^verbatim>\<open>{ voterId: userId, voteId, type: "vote" }\<close> is a list of fields
  with the strings they must equal (the ids of a request are JSON strings). MongoDB
  matches a field that is the string, or an array that holds it. \<^verbatim>\<open>findOne\<close> returns
  the first matching document in insertion order.
\<close>

definition mongoEq :: "jval \<Rightarrow> string \<Rightarrow> bool" where
  "mongoEq v q = (v = JStr q \<or> (case v of JArr xs \<Rightarrow> JStr q \<in> set xs | _ \<Rightarrow> False))"

definition matches :: "(string \<times> string) list \<Rightarrow> obj \<Rightarrow> bool" where
  "matches query doc = list_all (\<lambda>kq. mongoEq (propOf doc (fst kq)) (snd kq)) query"

definition findOne :: "env \<Rightarrow> store \<Rightarrow> (string \<times> string) list \<Rightarrow> obj option attempt" where
  "findOne e s query =
     (if dbThrows e DbFindOne then Threw
      else Returned (find (matches query) (blocksCollection s)))"

definition findLatest :: "env \<Rightarrow> store \<Rightarrow> obj option attempt" where
  "findLatest e s =
     (if dbThrows e DbFindOne then Threw else Returned (latestBlock (blocksCollection s)))"

text \<open>
  What the collection holds is the BSON encoding of the document it was given: a
  property whose value is \<^verbatim>\<open>undefined\<close> is stored as \<^verbatim>\<open>null\<close> (also inside an array
  or an object), and an Invalid Date as the date with time value 0 (1970-01-01); every
  other value is read back as it was written.
\<close>

fun bsonEncode :: "jval \<Rightarrow> jval" where
  "bsonEncode JUndefined = JNull"
| "bsonEncode (JDate None) = JDate (Some 0)"
| "bsonEncode (JArr xs) = JArr (map bsonEncode xs)"
| "bsonEncode (JObj kvs) = JObj (map (\<lambda>kv. (fst kv, bsonEncode (snd kv))) kvs)"
| "bsonEncode v = v"

definition bsonDoc :: "obj \<Rightarrow> obj" where
  "bsonDoc doc = map (\<lambda>kv. (fst kv, bsonEncode (snd kv))) doc"

text \<open>The stored form of \<open>doc\<close> under the id \<open>i\<close>: the server keeps \<^verbatim>\<open>_id\<close> first.\<close>

definition storedDocument :: "jval \<Rightarrow> obj \<Rightarrow> obj" where
  "storedDocument i doc = (''_id'', bsonEncode i) # AList.delete ''_id'' (bsonDoc doc)"

text \<open>
  \<^verbatim>\<open>insertOne(doc)\<close>: the driver gives a document without \<^verbatim>\<open>_id\<close> a new ObjectId
  (taken as fresh) and writes it into \<^verbatim>\<open>doc\<close>; a document that brings an \<^verbatim>\<open>_id\<close>
  already in the collection is refused (duplicate key). The call returns the new
  collection and \<^verbatim>\<open>doc\<close> as mutated.
\<close>

definition insertOne :: "env \<Rightarrow> store \<Rightarrow> obj \<Rightarrow> (store \<times> obj) attempt" where
  "insertOne e s doc =
     (if dbThrows e DbInsertOne then Threw
      else if propOf doc ''_id'' = JUndefined \<or> propOf doc ''_id'' = JNull
        then Returned
          (s\<lparr>blocksCollection := blocksCollection s @ [storedDocument (JOid (nextId s)) doc],
             nextId := Suc (nextId s)\<rparr>,
           AList.update ''_id'' (JOid (nextId s)) doc)
      else if bsonEncode (propOf doc ''_id'')
                \<in> set (map (\<lambda>d. propOf d ''_id'') (blocksCollection s))
        then Threw
      else Returned
        (s\<lparr>blocksCollection := blocksCollection s @ [storedDocument (propOf doc ''_id'') doc]\<rparr>,
         doc))"

section \<open>getUserRole and canUserVote\<close>

text \<open>
  getUserRole returns \<^verbatim>\<open>null\<close> (\<^const>\<open>JNull\<close>) when the user is not found, and asks the
  auth server only when the direct lookup threw; a reply that is not ok, or a failed
  request, gives \<^verbatim>\<open>null\<close> as well.
\<close>

definition getUserRole :: "env \<Rightarrow> string \<Rightarrow> jval" where
  "getUserRole e userId =
     (case usersFindOne e userId of
        UserFound user \<Rightarrow>
          JObj [(''userId'', JStr userId),
                (''status'', if truthy (propOf user ''status'') then propOf user ''status''
                             else JStr ''user''),
                (''groupId'', propOf user ''groupId'')]
      | UserNotFound \<Rightarrow> JNull
      | LookupThrows \<Rightarrow>
          (case fetchUserRole e userId of
             HttpOk body \<Rightarrow> body
           | HttpNotOk code \<Rightarrow> JNull
           | FetchThrows \<Rightarrow> JNull))"

text \<open>
  \<^verbatim>\<open>new Date(v)\<close>, and the comparisons of two dates: a comparison with an Invalid Date
  is false.
\<close>

definition newDate :: "env \<Rightarrow> jval \<Rightarrow> int option" where
  "newDate e v = (case v of JDate t \<Rightarrow> t | _ \<Rightarrow> dateOf e v)"

definition dateLt :: "int option \<Rightarrow> int option \<Rightarrow> bool" where
  "dateLt a b = (case a of None \<Rightarrow> False | Some x \<Rightarrow> (case b of None \<Rightarrow> False | Some y \<Rightarrow> x < y))"

definition dateLe :: "int option \<Rightarrow> int option \<Rightarrow> bool" where
  "dateLe a b = (case a of None \<Rightarrow> False | Some x \<Rightarrow> (case b of None \<Rightarrow> False | Some y \<Rightarrow> x \<le> y))"

datatype vote_denial =
    AdminsCannotVote
  | AlreadyVoted
  | VoteNotFound
  | VotingEnded
  | VoteCheckError

datatype vote_check = CannotVote vote_denial | CanVote obj

definition canUserVote :: "env \<Rightarrow> int \<Rightarrow> store \<Rightarrow> string \<Rightarrow> string \<Rightarrow> vote_check" where
  "canUserVote e now s userId voteId =
     (let userInfo = getUserRole e userId in
      if truthy userInfo \<and> strictEq (getProp userInfo ''status'') (JStr ''admin'')
        then CannotVote AdminsCannotVote
      else
        case findOne e s [(''voterId'', userId), (''voteId'', voteId), (''type'', ''vote'')] of
          Threw \<Rightarrow> CannotVote VoteCheckError
        | Returned (Some existingVote) \<Rightarrow> CannotVote AlreadyVoted
        | Returned None \<Rightarrow>
            (case findOne e s [(''voteId'', voteId), (''type'', ''create_vote'')] of
               Threw \<Rightarrow> CannotVote VoteCheckError
             | Returned None \<Rightarrow> CannotVote VoteNotFound
             | Returned (Some voteBlock) \<Rightarrow>
                 if dateLt (newDate e (propOf voteBlock ''endDate'')) (Some now)
                   then CannotVote VotingEnded
                 else CanVote voteBlock))"

text \<open>The field \<^verbatim>\<open>isActive\<close> of the reply of \<^verbatim>\<open>GET /results/:voteId\<close>.\<close>

definition resultsIsActive :: "env \<Rightarrow> int \<Rightarrow> obj \<Rightarrow> bool" where
  "resultsIsActive e now voteBlock = dateLt (Some now) (newDate e (propOf voteBlock ''endDate''))"

section \<open>addBlock\<close>

text \<open>
  addBlock awaits the collection three times: validateChain, the lookup of the last
  block, insertOne. \<open>addBlockPrepare\<close> is the function up to the computed hash (lines
  207 to 227), \<open>addBlockCommit\<close> the insertion and the result (lines 229 to 231);
  \<open>addBlock\<close> runs them without another request in between. \<open>now\<close> is the reading
  of \<^verbatim>\<open>new Date()\<close>.
\<close>

datatype add_result = AddOk obj | ChainDamaged validation | AddServerError

definition addBlockPrepare :: "env \<Rightarrow> int \<Rightarrow> store \<Rightarrow> obj \<Rightarrow> add_result + obj" where
  "addBlockPrepare e now s newBlock =
     (let chainValidation = validateChain e s in
      if \<not> valid chainValidation then Inl (ChainDamaged chainValidation)
      else
        case findLatest e s of
          Threw \<Rightarrow> Inl AddServerError
        | Returned lastBlock \<Rightarrow>
            let previousHash = (case lastBlock of Some b \<Rightarrow> propOf b ''hash'' | None \<Rightarrow> JStr ''0'');
                b1 = AList.update ''previousHash'' previousHash newBlock;
                b2 = AList.update ''creationDate'' (JDate (Some now)) b1;
                b3 = AList.update ''hash'' (JStr (createHash e b2)) b2
            in Inr b3)"

definition addBlockCommit :: "env \<Rightarrow> store \<Rightarrow> obj \<Rightarrow> add_result \<times> store" where
  "addBlockCommit e s newBlock =
     (case insertOne e s newBlock of
        Threw \<Rightarrow> (AddServerError, s)
      | Returned r \<Rightarrow> (AddOk (snd r), fst r))"

definition addBlock :: "env \<Rightarrow> int \<Rightarrow> store \<Rightarrow> obj \<Rightarrow> add_result \<times> store" where
  "addBlock e now s newBlock =
     (case addBlockPrepare e now s newBlock of
        Inl failure \<Rightarrow> (failure, s)
      | Inr prepared \<Rightarrow> addBlockCommit e s prepared)"

section \<open>The request handlers\<close>

text \<open>
  The ids of a request body are strings, and a missing id is the empty string (both are
  falsy and take the same branch); the other fields are any JSON value, \<^const>\<open>JUndefined\<close>
  when missing. Each handler is split where it calls addBlock: the checks before it
  return either the response that ends the request or the block to add. \<open>now\<close> is
  the handler's own reading of the clock, \<open>appendTime\<close> the later one of addBlock.
\<close>

datatype vote_response =
    VoteBadRequest
  | VoteForbidden vote_denial
  | VoteInvalidCandidate
  | VoteSaved obj
  | VoteAppendFailed add_result
  | VoteServerError

text \<open>
  \<^verbatim>\<open>POST /vote\<close> up to the new block. \<^verbatim>\<open>options.includes\<close> throws when the stored
  \<^verbatim>\<open>options\<close> is not an array (a string there, which \<^verbatim>\<open>/create_vote\<close> never stores,
  is not modelled).
\<close>

definition voteCheck ::
  "env \<Rightarrow> int \<Rightarrow> store \<Rightarrow> string \<Rightarrow> string \<Rightarrow> jval \<Rightarrow> vote_response + obj" where
  "voteCheck e now s voterId voteId candidate =
     (if voterId = [] \<or> voteId = [] \<or> \<not> truthy candidate then Inl VoteBadRequest
      else
        case canUserVote e now s voterId voteId of
          CannotVote denial \<Rightarrow> Inl (VoteForbidden denial)
        | CanVote voteBlock \<Rightarrow>
            (case propOf voteBlock ''options'' of
               JArr opts \<Rightarrow>
                 if \<not> arrayIncludes opts candidate then Inl VoteInvalidCandidate
                 else Inr [(''type'', JStr ''vote''), (''voterId'', JStr voterId),
                           (''voteId'', JStr voteId), (''candidate'', candidate)]
             | _ \<Rightarrow> Inl VoteServerError))"

definition voteAppend :: "env \<Rightarrow> int \<Rightarrow> store \<Rightarrow> obj \<Rightarrow> vote_response \<times> store" where
  "voteAppend e appendTime s newVoteBlock =
     (case addBlock e appendTime s newVoteBlock of
        (AddOk b, s') \<Rightarrow> (VoteSaved b, s')
      | (failure, s') \<Rightarrow> (VoteAppendFailed failure, s'))"

definition postVote ::
  "env \<Rightarrow> int \<Rightarrow> int \<Rightarrow> store \<Rightarrow> string \<Rightarrow> string \<Rightarrow> jval \<Rightarrow> vote_response \<times> store" where
  "postVote e now appendTime s voterId voteId candidate =
     (case voteCheck e now s voterId voteId candidate of
        Inl response \<Rightarrow> (response, s)
      | Inr newVoteBlock \<Rightarrow> voteAppend e appendTime s newVoteBlock)"

record create_request =
  cvVoteId :: string
  cvTitle :: jval
  cvDescription :: jval
  cvOptions :: jval
  cvCreatorId :: string
  cvEndDate :: jval
  cvGroupIds :: jval

datatype create_response =
    CreateBadRequest
  | CreateForbidden
  | CreateExists
  | CreateEndDateNotFuture
  | CreateOk obj
  | CreateAppendFailed add_result
  | CreateServerError

fun arrayLength :: "jval \<Rightarrow> nat" where
  "arrayLength (JArr xs) = length xs"
| "arrayLength _ = 0"

text \<open>
  \<^verbatim>\<open>POST /create_vote\<close> up to the new block. The default end date is thirty days after
  \<open>now\<close> (\<^verbatim>\<open>setDate(getDate() + 30)\<close>, with days of 24 hours).
\<close>

definition createCheck :: "env \<Rightarrow> int \<Rightarrow> store \<Rightarrow> create_request \<Rightarrow> create_response + obj" where
  "createCheck e now s r =
     (if cvVoteId r = [] \<or> \<not> truthy (cvTitle r) \<or> \<not> truthy (cvDescription r)
         \<or> \<not> truthy (cvOptions r) \<or> cvCreatorId r = [] \<or> \<not> isArray (cvOptions r)
         \<or> arrayLength (cvOptions r) = 0
        then Inl CreateBadRequest
      else
        let userInfo = getUserRole e (cvCreatorId r) in
        if \<not> truthy userInfo \<or> \<not> strictEq (getProp userInfo ''status'') (JStr ''admin'')
          then Inl CreateForbidden
        else
          case findOne e s [(''voteId'', cvVoteId r), (''type'', ''create_vote'')] of
            Threw \<Rightarrow> Inl CreateServerError
          | Returned (Some existingVote) \<Rightarrow> Inl CreateExists
          | Returned None \<Rightarrow>
              if truthy (cvEndDate r) \<and> dateLe (newDate e (cvEndDate r)) (Some now)
                then Inl CreateEndDateNotFuture
              else
                let finalEndDate =
                      (if truthy (cvEndDate r) then newDate e (cvEndDate r)
                       else Some (now + 30 * 86400000));
                    voteGroupIds =
                      (if isArray (cvGroupIds r) \<and> 0 < arrayLength (cvGroupIds r)
                       then cvGroupIds r else JArr [JStr ''all''])
                in Inr [(''type'', JStr ''create_vote''), (''voteId'', JStr (cvVoteId r)),
                        (''creatorId'', JStr (cvCreatorId r)), (''endDate'', JDate finalEndDate),
                        (''title'', cvTitle r), (''description'', cvDescription r),
                        (''options'', cvOptions r), (''groupIds'', voteGroupIds)])"

definition createAppend :: "env \<Rightarrow> int \<Rightarrow> store \<Rightarrow> obj \<Rightarrow> create_response \<times> store" where
  "createAppend e appendTime s newVoteBlock =
     (case addBlock e appendTime s newVoteBlock of
        (AddOk b, s') \<Rightarrow> (CreateOk b, s')
      | (failure, s') \<Rightarrow> (CreateAppendFailed failure, s'))"

definition postCreateVote ::
  "env \<Rightarrow> int \<Rightarrow> int \<Rightarrow> store \<Rightarrow> create_request \<Rightarrow> create_response \<times> store" where
  "postCreateVote e now appendTime s r =
     (case createCheck e now s r of
        Inl response \<Rightarrow> (response, s)
      | Inr newVoteBlock \<Rightarrow> createAppend e appendTime s newVoteBlock)"

text \<open>
  \<^verbatim>\<open>GET /chain\<close>: \<open>userGroupId\<close> is \<^verbatim>\<open>req.query.groupId\<close>, \<open>None\<close> when the query
  has none (a groupId given several times, which arrives as an array, is not modelled).
  \<^verbatim>\<open>!userGroupId\<close> holds for a missing and for an empty groupId.
\<close>

datatype chain_response = ChainBlocks "obj list" | ChainError

definition blockVisible :: "string \<Rightarrow> obj \<Rightarrow> bool" where
  "blockVisible userGroupId block =
     (if \<not> strictEq (propOf block ''type'') (JStr ''create_vote'') then True
      else isArray (propOf block ''groupIds'') \<and>
           (case propOf block ''groupIds'' of
              JArr gs \<Rightarrow> arrayIncludes gs (JStr ''all'') \<or> arrayIncludes gs (JStr userGroupId)
            | _ \<Rightarrow> False))"

definition getChain :: "env \<Rightarrow> store \<Rightarrow> string option \<Rightarrow> chain_response" where
  "getChain e s userGroupId =
     (if dbThrows e DbFind then ChainError
      else
        case userGroupId of
          None \<Rightarrow> ChainBlocks (blocksCollection s)
        | Some g \<Rightarrow>
            if g = [] then ChainBlocks (blocksCollection s)
            else ChainBlocks (filter (blockVisible g) (blocksCollection s)))"

section \<open>The validator in the words of the specification\<close>

text \<open>
  The specification describes the validator by three checks on an ordered sequence of
  entries: I1 (the stored hash is the digest of the entry's canonical content), I2 (the
  first entry links to the genesis sentinel \<^verbatim>\<open>"0"\<close>) and I3 (every later entry links to
  the hash of the entry before it). \<open>entryFailure\<close> is what the check of entry \<open>i\<close>
  reports, \<open>validateSpec\<close> the verdict: the first entry that fails, with its reason.
  \<open>verdictOf\<close> reads the same verdict off the result object of validateChain.
\<close>

datatype reason = ContentHashMismatch | BadGenesisLink | BrokenLinkage

datatype verdict = Valid | Invalid nat reason | NoVerdict

definition hashMatches :: "env \<Rightarrow> obj \<Rightarrow> bool" where
  "hashMatches e entry = (propOf entry ''hash'' = JStr (createHash e entry))"

definition entryFailure :: "env \<Rightarrow> obj list \<Rightarrow> nat \<Rightarrow> reason option" where
  "entryFailure e es i =
     (if \<not> hashMatches e (es ! i) then Some ContentHashMismatch
      else if i = 0
        then (if propOf (es ! 0) ''previousHash'' = JStr ''0'' then None else Some BadGenesisLink)
      else if propOf (es ! i) ''previousHash'' = propOf (es ! (i - 1)) ''hash'' then None
      else Some BrokenLinkage)"

definition firstFailure :: "env \<Rightarrow> obj list \<Rightarrow> nat list \<Rightarrow> verdict" where
  "firstFailure e es js =
     (case List.map_filter (\<lambda>i. map_option (Pair i) (entryFailure e es i)) js of
        [] \<Rightarrow> Valid
      | (i, r) # _ \<Rightarrow> Invalid i r)"

definition validateSpec :: "env \<Rightarrow> obj list \<Rightarrow> verdict" where
  "validateSpec e es = firstFailure e es [0..<length es]"

definition verdictOf :: "validation \<Rightarrow> verdict" where
  "verdictOf v =
     (if valid v then Valid
      else case blockIndex v of
        None \<Rightarrow> NoVerdict
      | Some i \<Rightarrow>
          (case message v of
             FirstBlockHashMsg _ \<Rightarrow> Invalid i ContentHashMismatch
           | BlockHashMsg _ \<Rightarrow> Invalid i ContentHashMismatch
           | FirstBlockPreviousHashMsg _ \<Rightarrow> Invalid i BadGenesisLink
           | BlockPreviousHashMsg _ \<Rightarrow> Invalid i BrokenLinkage
           | _ \<Rightarrow> NoVerdict))"

section \<open>Sequential runs of addBlock\<close>

text \<open>
  A run of addBlock calls one after the other, no other request in between. Each step
  gives which calls to the collection fail during it, the reading of the clock, and the
  block to add.
\<close>

fun appendAll :: "env \<Rightarrow> store \<Rightarrow> ((dbop \<Rightarrow> bool) \<times> int \<times> obj) list \<Rightarrow> store" where
  "appendAll e s [] = s"
| "appendAll e s (step # steps) =
     appendAll e (snd (addBlock (e\<lparr>dbThrows := fst step\<rparr>) (fst (snd step)) s (snd (snd step)))) steps"

section \<open>Requests that interleave\<close>

text \<open>
  The handlers are \<^verbatim>\<open>async\<close> functions on one event loop: a second request can run
  wherever the first one awaits the database. Two schedules are written out. In
  \<open>addBlockRace\<close> two calls of addBlock both validate the chain and read the last block
  before either inserts. In \<open>voteRace\<close> two \<^verbatim>\<open>POST /vote\<close> requests of one voter both
  pass the checks of the handler before either calls addBlock. \<open>tailHash\<close> is the
  \<^verbatim>\<open>previousHash\<close> that addBlock computes on top of the blocks \<open>bs\<close>.
\<close>

definition tailHash :: "obj list \<Rightarrow> jval" where
  "tailHash bs = (case latestBlock bs of Some b \<Rightarrow> propOf b ''hash'' | None \<Rightarrow> JStr ''0'')"

definition addBlockRace ::
  "env \<Rightarrow> store \<Rightarrow> int \<Rightarrow> obj \<Rightarrow> int \<Rightarrow> obj \<Rightarrow> add_result \<times> add_result \<times> store" where
  "addBlockRace e s now1 newBlock1 now2 newBlock2 =
     (let prepared1 = addBlockPrepare e now1 s newBlock1;
          prepared2 = addBlockPrepare e now2 s newBlock2;
          done1 = (case prepared1 of Inl failure \<Rightarrow> (failure, s) | Inr b \<Rightarrow> addBlockCommit e s b);
          done2 = (case prepared2 of Inl failure \<Rightarrow> (failure, snd done1)
                                   | Inr b \<Rightarrow> addBlockCommit e (snd done1) b)
      in (fst done1, fst done2, snd done2))"


section \<open>The uniqueness invariants\<close>





text \<open>Readers of results, for the examples.\<close>

fun isAddOk :: "add_result \<Rightarrow> bool" where
  "isAddOk (AddOk b) = True"
| "isAddOk _ = False"

fun addedBlock :: "add_result \<Rightarrow> obj" where
  "addedBlock (AddOk b) = b"
| "addedBlock _ = []"

fun createdBlock :: "create_response \<Rightarrow> obj" where
  "createdBlock (CreateOk b) = b"
| "createdBlock _ = []"


section \<open>Example data\<close>

text \<open>
  A concrete environment on which the model is evaluated in the examples below. Its
  digest is an injective stand-in for SHA-256 (the digested string after a mark, so that
  two digests are equal exactly when the digested strings are), and its date format
  writes the milliseconds in decimal; the general theorems hold for every environment.
  The user \<^verbatim>\<open>admin1\<close> is an administrator, \<^verbatim>\<open>u1\<close> an ordinary user, \<^verbatim>\<open>nobody\<close> is
  not in the users collection, and for every other id both the direct lookup and the
  request to the auth server fail. Times are milliseconds.
\<close>

definition markDigest :: "string \<Rightarrow> string" where
  "markDigest s = CHR ''#'' # s"

definition exampleEnv :: env where
  "exampleEnv =
     \<lparr>sha256hex = markDigest,
      toISOString = decInt,
      dateOf = (\<lambda>v. case v of JNum n \<Rightarrow> Some n | _ \<Rightarrow> None),
      usersFindOne = (\<lambda>u. if u = ''admin1'' then UserFound [(''status'', JStr ''admin'')]
                           else if u = ''u1'' then UserFound [(''groupId'', JStr ''g1'')]
                           else if u = ''nobody'' then UserNotFound
                           else LookupThrows),
      fetchUserRole = (\<lambda>u. FetchThrows),
      dbThrows = (\<lambda>op. False)\<rparr>"

definition emptyStore :: store where
  "emptyStore = \<lparr>blocksCollection = [], nextId = 0\<rparr>"

text \<open>A request by \<^verbatim>\<open>admin1\<close> for a vote \<^verbatim>\<open>v1\<close> that ends at time 1000.\<close>

definition requestV1 :: create_request where
  "requestV1 =
     \<lparr>cvVoteId = ''v1'', cvTitle = JStr ''T'', cvDescription = JStr ''D'',
      cvOptions = JArr [JStr ''A'', JStr ''B''], cvCreatorId = ''admin1'',
      cvEndDate = JNum 1000, cvGroupIds = JArr [JStr ''g1'']\<rparr>"

text \<open>The store after that request, handled at time 50 and appended at time 60.\<close>

definition storeV1 :: store where
  "storeV1 = snd (postCreateVote exampleEnv 50 60 emptyStore requestV1)"

text \<open>
  The same request with an end date that \<^verbatim>\<open>new Date\<close> cannot read: it passes the test
  \<^verbatim>\<open>finalEndDate <= currentDate\<close>, and the new block carries an Invalid Date.
\<close>

definition requestSoon :: create_request where
  "requestSoon = requestV1\<lparr>cvEndDate := JStr ''soon''\<rparr>"

text \<open>The store \<open>storeV1\<close> after somebody edited the title of the stored block.\<close>

definition tamperedStore :: store where
  "tamperedStore =
     storeV1\<lparr>blocksCollection := map (AList.update ''title'' (JStr ''X'')) (blocksCollection storeV1)\<rparr>"

definition ballotU1 :: obj where
  "ballotU1 =
     [(''type'', JStr ''vote''), (''voterId'', JStr ''u1''), (''voteId'', JStr ''v1''),
      (''candidate'', JStr ''A'')]"

definition voteDefG1 :: obj where
  "voteDefG1 =
     [(''type'', JStr ''create_vote''), (''voteId'', JStr ''v1''),
      (''groupIds'', JArr [JStr ''g1''])]"

definition voteDefAll :: obj where
  "voteDefAll =
     [(''type'', JStr ''create_vote''), (''voteId'', JStr ''v2''),
      (''groupIds'', JArr [JStr ''all''])]"

definition listingStore :: store where
  "listingStore = \<lparr>blocksCollection = [voteDefG1, ballotU1, voteDefAll], nextId = 3\<rparr>"

definition ballotU2 :: obj where
  "ballotU2 =
     [(''type'', JStr ''vote''), (''voterId'', JStr ''u2''), (''voteId'', JStr ''v1''),
      (''candidate'', JStr ''B'')]"

definition noFault :: "dbop \<Rightarrow> bool" where
  "noFault op = False"

text \<open>Two appends with the clock running forward, and two with the clock set back.\<close>

definition stepsForward :: "((dbop \<Rightarrow> bool) \<times> int \<times> obj) list" where
  "stepsForward = [(noFault, 10, ballotU1), (noFault, 20, ballotU2)]"

definition stepsClockBack :: "((dbop \<Rightarrow> bool) \<times> int \<times> obj) list" where
  "stepsClockBack = [(noFault, 10, ballotU1), (noFault, 5, ballotU2)]"

text \<open>Two appends that read the same time from the clock.\<close>

definition stepsSameClock :: "((dbop \<Rightarrow> bool) \<times> int \<times> obj) list" where
  "stepsSameClock = [(noFault, 10, ballotU1), (noFault, 10, ballotU2)]"

text \<open>
  Two vote definitions with the same fields; only the keys of the object in \<^verbatim>\<open>title\<close>
  were inserted in a different order.
\<close>

definition nestedAB :: obj where
  "nestedAB =
     [(''type'', JStr ''create_vote''), (''voteId'', JStr ''v1''),
      (''title'', JObj [(''a'', JNum 1), (''b'', JNum 2)])]"

definition nestedBA :: obj where
  "nestedBA =
     [(''type'', JStr ''create_vote''), (''voteId'', JStr ''v1''),
      (''title'', JObj [(''b'', JNum 2), (''a'', JNum 1)])]"

section \<open>Properties\<close>

subsection \<open>Auxiliary facts\<close>

lemma strictEq_JStr: "strictEq x (JStr s) = (x = JStr s)"
  by (cases x) auto

lemma arrayIncludes_JStr: "arrayIncludes gs (JStr a) = (JStr a \<in> set gs)"
  by (auto simp: arrayIncludes_def list_ex_iff strictEq_JStr)

lemma blockVisible_iff:
  "blockVisible g b =
     (propOf b ''type'' \<noteq> JStr ''create_vote'' \<or>
      (\<exists>gs. propOf b ''groupIds'' = JArr gs \<and> (JStr ''all'' \<in> set gs \<or> JStr g \<in> set gs)))"
  by (cases "propOf b ''groupIds''")
     (auto simp: blockVisible_def strictEq_JStr arrayIncludes_JStr)




lemma bsonDoc_update:
  "bsonDoc (AList.update k v d) = AList.update k (bsonEncode v) (bsonDoc d)"
  by (induction d) (auto simp: bsonDoc_def)

lemma map_of_stored:
  "map_of (storedDocument i doc) = map_of (bsonDoc (AList.update ''_id'' i doc))"
  by (simp add: storedDocument_def bsonDoc_update update_conv' delete_conv' fun_eq_iff)

lemma insertOne_cases:
  "insertOne e s doc = Threw \<or>
   (\<exists>i. insertOne e s doc =
      Returned (s\<lparr>blocksCollection := blocksCollection s @ [storedDocument i doc],
                  nextId := (if propOf doc ''_id'' = JUndefined \<or> propOf doc ''_id'' = JNull
                             then Suc (nextId s) else nextId s)\<rparr>,
                AList.update ''_id'' i doc))"
proof (cases "dbThrows e DbInsertOne")
  case True
  then show ?thesis by (simp add: insertOne_def)
next
  case False
  show ?thesis
  proof (cases "propOf doc ''_id'' = JUndefined \<or> propOf doc ''_id'' = JNull")
    case True
    with False show ?thesis by (auto simp: insertOne_def)
  next
    case noid: False
    have upd: "AList.update ''_id'' (propOf doc ''_id'') doc = doc"
      using noid by (auto simp: propOf_def update_triv split: option.splits)
    show ?thesis
    proof (cases "bsonEncode (propOf doc ''_id'')
                    \<in> set (map (\<lambda>d. propOf d ''_id'') (blocksCollection s))")
      case True
      with False noid show ?thesis by (simp add: insertOne_def)
    next
      case fresh: False
      have "insertOne e s doc =
          Returned (s\<lparr>blocksCollection :=
                        blocksCollection s @ [storedDocument (propOf doc ''_id'') doc]\<rparr>,
                    doc)"
        using False noid fresh by (simp add: insertOne_def)
      then show ?thesis using noid upd by (intro disjI2 exI[of _ "propOf doc ''_id''"]) simp
    qed
  qed
qed

lemma findOne_usersFindOne [simp]: "findOne (e\<lparr>usersFindOne := f\<rparr>) s q = findOne e s q"
  by (simp add: findOne_def)

lemma newDate_usersFindOne [simp]: "newDate (e\<lparr>usersFindOne := f\<rparr>) v = newDate e v"
  by (simp add: newDate_def split: jval.splits)

lemma getUserRole_ordinary:
  "getUserRole (e\<lparr>usersFindOne := \<lambda>u. UserFound []\<rparr>) u =
     JObj [(''userId'', JStr u), (''status'', JStr ''user''), (''groupId'', JUndefined)]"
  by (simp add: getUserRole_def propOf_def)

lemma ordinary_status:
  "getProp (JObj [(''userId'', JStr u), (''status'', JStr ''user''), (''groupId'', JUndefined)])
     ''status'' = JStr ''user''"
  by (simp add: getProp_def propOf_def)

lemma exampleEnv_find_ok: "\<not> dbThrows exampleEnv DbFind"
  by (simp add: exampleEnv_def)

lemma isBlockValid_hashMatches: "isBlockValid e b = hashMatches e b"
  by (simp add: isBlockValid_def hashMatches_def strictEq_JStr)

lemma firstFailure_Nil: "firstFailure e es [] = Valid"
  by (simp add: firstFailure_def map_filter_simps)

lemma firstFailure_Cons:
  "firstFailure e es (j # js) =
     (case entryFailure e es j of None \<Rightarrow> firstFailure e es js | Some r \<Rightarrow> Invalid j r)"
  by (simp add: firstFailure_def map_filter_simps split: option.splits)

lemma validateRest_spec:
  assumes "es = pre @ p # rest" and "hashMatches e p" and "k = length pre"
  shows "verdictOf (validateRest e (propOf p ''hash'') (Suc k) rest)
         = firstFailure e es [Suc k..<length es]"
  using assms
proof (induction rest arbitrary: pre p k)
  case Nil
  then show ?case by (simp add: verdictOf_def firstFailure_Nil)
next
  case (Cons b rest)
  have len: "Suc k < length es" using Cons.prems by simp
  have upt: "[Suc k..<length es] = Suc k # [Suc (Suc k)..<length es]"
    using len by (simp add: upt_conv_Cons)
  have nth_b: "es ! Suc k = b" using Cons.prems by (simp add: nth_append)
  have nth_p: "es ! k = p" using Cons.prems by (simp add: nth_append)
  have ph: "propOf p ''hash'' = JStr (createHash e p)"
    using Cons.prems(2) by (simp add: hashMatches_def)
  show ?case
  proof (cases "hashMatches e b")
    case False
    then show ?thesis
      by (simp add: upt firstFailure_Cons entryFailure_def nth_b isBlockValid_hashMatches verdictOf_def)
  next
    case hb: True
    show ?thesis
    proof (cases "propOf b ''previousHash'' = propOf p ''hash''")
      case False
      then show ?thesis using hb
        by (simp add: upt firstFailure_Cons entryFailure_def nth_b nth_p isBlockValid_hashMatches
              verdictOf_def ph strictEq_JStr)
    next
      case True
      have es': "es = (pre @ [p]) @ b # rest" using Cons.prems by simp
      have "verdictOf (validateRest e (propOf b ''hash'') (Suc (Suc k)) rest)
            = firstFailure e es [Suc (Suc k)..<length es]"
        using Cons.IH[OF es' hb] Cons.prems(3) by simp
      then show ?thesis using hb True
        by (simp add: upt firstFailure_Cons entryFailure_def nth_b nth_p isBlockValid_hashMatches
              ph strictEq_JStr)
    qed
  qed
qed

lemma validateBlocks_spec: "verdictOf (validateBlocks e es) = validateSpec e es"
proof (cases es)
  case Nil
  then show ?thesis
    by (simp add: validateBlocks_def validateSpec_def firstFailure_Nil verdictOf_def)
next
  case (Cons p rest)
  have "0 < length es" using Cons by simp
  then have upt: "[0..<length es] = 0 # [Suc 0..<length es]"
    by (rule upt_conv_Cons)
  have spec: "validateSpec e es =
      (case entryFailure e es 0 of
         None \<Rightarrow> firstFailure e es [Suc 0..<length es]
       | Some r \<Rightarrow> Invalid 0 r)"
    by (simp only: validateSpec_def upt firstFailure_Cons)
  have nth0: "es ! 0 = p" using Cons by simp
  have code: "validateBlocks e es =
      (if \<not> hashMatches e p
         then \<lparr>valid = False, message = FirstBlockHashMsg (propOf p ''_id''), blockIndex = Some 0\<rparr>
       else if propOf p ''previousHash'' \<noteq> JStr ''0''
         then \<lparr>valid = False, message = FirstBlockPreviousHashMsg (propOf p ''_id''),
               blockIndex = Some 0\<rparr>
       else validateRest e (propOf p ''hash'') 1 rest)"
    using Cons by (simp add: validateBlocks_def isBlockValid_hashMatches strictEq_JStr)
  show ?thesis
  proof (cases "hashMatches e p")
    case False
    then show ?thesis
      by (simp add: code spec entryFailure_def nth0 verdictOf_def)
  next
    case hp: True
    show ?thesis
    proof (cases "propOf p ''previousHash'' = JStr ''0''")
      case False
      then show ?thesis using hp
        by (simp add: code spec entryFailure_def nth0 verdictOf_def)
    next
      case True
      have "verdictOf (validateRest e (propOf p ''hash'') (Suc 0) rest)
            = firstFailure e es [Suc 0..<length es]"
        using validateRest_spec[of es "[]" p rest e 0] Cons hp by simp
      then show ?thesis using hp True
        by (simp add: code spec entryFailure_def nth0)
    qed
  qed
qed

lemma firstFailure_Valid_iff:
  "firstFailure e es js = Valid \<longleftrightarrow> (\<forall>i\<in>set js. entryFailure e es i = None)"
  by (induction js) (auto simp: firstFailure_Nil firstFailure_Cons split: option.splits)

lemma verdictOf_Valid_iff: "verdictOf v = Valid \<longleftrightarrow> valid v"
  by (auto simp: verdictOf_def split: option.splits vmessage.splits)

lemma validateBlocks_valid_iff:
  "valid (validateBlocks e es) \<longleftrightarrow> (\<forall>i<length es. entryFailure e es i = None)"
  using validateBlocks_spec[of e es] verdictOf_Valid_iff[of "validateBlocks e es"]
  by (auto simp: validateSpec_def firstFailure_Valid_iff)

lemma blockForHashing_update_hash:
  "blockForHashing (AList.update ''hash'' h b) = blockForHashing b"
  by (simp add: blockForHashing_def delete_update_same)

lemma blockForHashing_update_id:
  "blockForHashing (AList.update ''_id'' i b) = blockForHashing b"
proof -
  have "AList.delete ''_id'' (AList.delete ''hash'' (AList.update ''_id'' i b))
        = AList.delete ''hash'' (AList.delete ''_id'' (AList.update ''_id'' i b))"
    by (rule delete_twist)
  also have "\<dots> = AList.delete ''hash'' (AList.delete ''_id'' b)"
    by (simp add: delete_update_same)
  also have "\<dots> = AList.delete ''_id'' (AList.delete ''hash'' b)"
    by (rule delete_twist)
  finally show ?thesis by (simp add: blockForHashing_def)
qed

lemma blockForHashing_stored:
  "blockForHashing (storedDocument i b) = blockForHashing (bsonDoc b)"
proof -
  have "AList.delete ''_id'' (AList.delete ''hash'' (storedDocument i b))
        = AList.delete ''_id'' (AList.delete ''hash'' (AList.delete ''_id'' (bsonDoc b)))"
    by (simp add: storedDocument_def AList.delete_eq)
  also have "\<dots> = AList.delete ''_id'' (AList.delete ''_id'' (AList.delete ''hash'' (bsonDoc b)))"
    by (simp add: delete_twist)
  also have "\<dots> = AList.delete ''_id'' (AList.delete ''hash'' (bsonDoc b))"
    by (simp add: delete_idem)
  finally show ?thesis by (simp add: blockForHashing_def)
qed

lemma createHash_cong:
  "blockForHashing a = blockForHashing b \<Longrightarrow> createHash e a = createHash e b"
  by (simp add: createHash_def hashInput_def orderedBlock_def)

lemma sort_mset_eq:
  fixes xs ys :: "'a::linorder list"
  assumes "mset xs = mset ys"
  shows "sort xs = sort ys"
  using assms by (metis properties_for_sort sorted_sort mset_sort)

lemma orderedBlock_permutation:
  assumes "distinct (map fst b)" and "mset b' = mset b"
  shows "orderedBlock b' = orderedBlock b"
proof -
  have m: "mset (blockForHashing b') = mset (blockForHashing b)"
    using assms(2) by (simp add: blockForHashing_def AList.delete_eq)
  have d: "distinct (map fst (blockForHashing b))"
    using assms(1) by (simp add: blockForHashing_def distinct_delete)
  have "mset (map fst (blockForHashing b')) = mset (map fst (blockForHashing b))"
    using m by (metis mset_map)
  then have keys: "sort (map fst (blockForHashing b')) = sort (map fst (blockForHashing b))"
    by (rule sort_mset_eq)
  have d': "distinct (map fst (blockForHashing b'))"
    using d \<open>mset (map fst (blockForHashing b')) = mset (map fst (blockForHashing b))\<close>
    by (metis mset_eq_imp_distinct_iff)
  have "set (blockForHashing b') = set (blockForHashing b)"
    using m by (metis set_mset_mset)
  then have "map_of (blockForHashing b') = map_of (blockForHashing b)"
    using d d' by (simp add: map_of_inject_set)
  then have "propOf (blockForHashing b') = propOf (blockForHashing b)"
    by (simp add: propOf_def fun_eq_iff)
  with keys show ?thesis by (simp add: orderedBlock_def)
qed

lemma createHash_dbThrows [simp]: "createHash (e\<lparr>dbThrows := f\<rparr>) b = createHash e b"
  by (simp add: createHash_def hashInput_def)

lemma isBlockValid_dbThrows [simp]: "isBlockValid (e\<lparr>dbThrows := f\<rparr>) b = isBlockValid e b"
  by (simp add: isBlockValid_def)

lemma validateRest_dbThrows [simp]:
  "validateRest (e\<lparr>dbThrows := f\<rparr>) p i bs = validateRest e p i bs"
  by (induction bs arbitrary: p i) simp_all

lemma validateBlocks_dbThrows [simp]:
  "validateBlocks (e\<lparr>dbThrows := f\<rparr>) bs = validateBlocks e bs"
  by (simp add: validateBlocks_def split: list.splits)

lemma sortByCreationDate_sorted:
  assumes "sorted_wrt (<) (map dateKey bs)"
  shows "sortByCreationDate bs = bs"
proof -
  have "sorted_wrt (\<le>) (map dateKey bs)"
    using assms by (rule sorted_wrt_mono_rel[rotated]) simp
  then have "sorted (map dateKey bs)" .
  then show ?thesis by (simp add: sortByCreationDate_def sort_key_id_if_sorted)
qed

lemma latestBlock_sorted:
  assumes "sorted_wrt (<) (map dateKey bs)" and "bs \<noteq> []"
  shows "latestBlock bs = Some (last bs)"
  using assms
proof (induction bs)
  case Nil
  then show ?case by simp
next
  case (Cons b bs)
  show ?case
  proof (cases "bs = []")
    case True
    then show ?thesis by simp
  next
    case False
    have "latestBlock bs = Some (last bs)" using Cons False by simp
    moreover have "dateKey b < dateKey (last bs)" using Cons.prems False by simp
    ultimately show ?thesis using False by (auto dest: leD)
  qed
qed

lemma entryFailure_append:
  assumes "i < length bs"
  shows "entryFailure e (bs @ cs) i = entryFailure e bs i"
  using assms by (cases i) (simp_all add: entryFailure_def nth_append)

lemma propOf_stored:
  "k \<noteq> ''_id'' \<Longrightarrow> propOf (storedDocument i b) k = propOf (bsonDoc b) k"
  by (simp add: storedDocument_def propOf_def delete_conv')

lemma propOf_update_same: "propOf (AList.update k v b) k = v"
  by (simp add: propOf_def update_conv')

lemma propOf_update_other: "k' \<noteq> k \<Longrightarrow> propOf (AList.update k v b) k' = propOf b k'"
  by (simp add: propOf_def update_conv')

lemma latestBlock_max:
  "latestBlock bs = Some m \<Longrightarrow> m \<in> set bs \<and> (\<forall>b\<in>set bs. dateKey b \<le> dateKey m)"
proof (induction bs arbitrary: m)
  case Nil
  then show ?case by simp
next
  case (Cons b bs)
  show ?case
  proof (cases "latestBlock bs")
    case None
    then have "bs = []" by (cases bs) (auto split: option.splits if_splits)
    with Cons.prems None show ?thesis by simp
  next
    case (Some m')
    from Cons.IH[OF Some] have ih: "m' \<in> set bs" "\<forall>x\<in>set bs. dateKey x \<le> dateKey m'"
      by simp_all
    show ?thesis
    proof (cases "dateKey m' \<le> dateKey b")
      case True
      then have "m = b" using Cons.prems Some by simp
      with ih True show ?thesis by (auto intro: order_trans)
    next
      case False
      then have "m = m'" using Cons.prems Some by simp
      with ih False show ?thesis by auto
    qed
  qed
qed

lemma addBlockPrepare_Inr:
  assumes "addBlockPrepare e now s nb = Inr p"
  shows "p = AList.update ''hash''
               (JStr (createHash e (AList.update ''creationDate'' (JDate (Some now))
                                     (AList.update ''previousHash'' (tailHash (blocksCollection s)) nb))))
               (AList.update ''creationDate'' (JDate (Some now))
                  (AList.update ''previousHash'' (tailHash (blocksCollection s)) nb))
         \<and> valid (validateChain e s) \<and> \<not> dbThrows e DbFindOne"
  using assms
  by (auto simp: addBlockPrepare_def findLatest_def Let_def tailHash_def split: if_splits)

lemma prepared_props:
  assumes "addBlockPrepare e now s nb = Inr p"
  shows "propOf p ''previousHash'' = tailHash (blocksCollection s)"
    and "propOf p ''creationDate'' = JDate (Some now)"
    and "propOf p ''_id'' = propOf nb ''_id''"
    and "k \<notin> {''previousHash'', ''creationDate'', ''hash''} \<Longrightarrow> propOf p k = propOf nb k"
  using addBlockPrepare_Inr[OF assms]
  by (simp_all add: propOf_update_same propOf_update_other)

lemma insertOne_no_id:
  assumes "\<not> dbThrows e DbInsertOne" and "propOf doc ''_id'' = JUndefined"
  shows "insertOne e s doc =
     Returned (s\<lparr>blocksCollection := blocksCollection s @ [storedDocument (JOid (nextId s)) doc],
                nextId := Suc (nextId s)\<rparr>,
              AList.update ''_id'' (JOid (nextId s)) doc)"
  using assms by (simp add: insertOne_def)

lemma valid_chain_hashes:
  assumes "valid (validateChain e s)" and "b \<in> set (blocksCollection s)"
  shows "hashMatches e b"
proof -
  define bs where "bs = sortByCreationDate (blocksCollection s)"
  have "valid (validateBlocks e bs)"
    using assms(1) by (auto simp: validateChain_def bs_def split: if_splits)
  then have ok: "\<forall>i<length bs. entryFailure e bs i = None"
    by (simp add: validateBlocks_valid_iff)
  have "b \<in> set bs" using assms(2) by (simp add: bs_def sortByCreationDate_def)
  then obtain i where "i < length bs" "bs ! i = b" by (auto simp: in_set_conv_nth)
  moreover from this have "entryFailure e bs i = None" using ok by simp
  ultimately show ?thesis by (auto simp: entryFailure_def split: if_splits)
qed

lemma tailHash_string:
  assumes "valid (validateChain e s)"
  shows "\<exists>h. tailHash (blocksCollection s) = JStr h"
proof (cases "latestBlock (blocksCollection s)")
  case None
  then show ?thesis by (simp add: tailHash_def)
next
  case (Some m)
  then have "m \<in> set (blocksCollection s)" using latestBlock_max by blast
  then have "hashMatches e m" using assms by (rule valid_chain_hashes[rotated])
  then show ?thesis using Some by (simp add: tailHash_def hashMatches_def)
qed

lemma bsonDoc_prepared:
  assumes "addBlockPrepare e now s nb = Inr p"
  shows "bsonDoc p =
     AList.update ''hash'' (propOf p ''hash'')
       (AList.update ''creationDate'' (JDate (Some now))
          (AList.update ''previousHash'' (tailHash (blocksCollection s)) (bsonDoc nb)))"
proof -
  from addBlockPrepare_Inr[OF assms] obtain h where
    p: "p = AList.update ''hash'' (JStr h)
              (AList.update ''creationDate'' (JDate (Some now))
                 (AList.update ''previousHash'' (tailHash (blocksCollection s)) nb))"
    and v: "valid (validateChain e s)" by blast
  from tailHash_string[OF v] obtain t where t: "tailHash (blocksCollection s) = JStr t" ..
  show ?thesis by (simp add: p t bsonDoc_update propOf_update_same)
qed

lemma stored_props:
  assumes "addBlockPrepare e now s nb = Inr p"
  shows "propOf (storedDocument i p) ''previousHash'' = tailHash (blocksCollection s)"
    and "propOf (storedDocument i p) ''creationDate'' = JDate (Some now)"
    and "propOf (storedDocument i p) ''hash'' = propOf p ''hash''"
    and "k \<notin> {''previousHash'', ''creationDate'', ''hash'', ''_id''} \<Longrightarrow>
           propOf (storedDocument i p) k = propOf (bsonDoc nb) k"
  by (simp_all add: propOf_stored bsonDoc_prepared[OF assms] propOf_update_same
        propOf_update_other)

lemma addBlock_cases:
  "(\<exists>failure. addBlock e now s nb = (failure, s) \<and> \<not> isAddOk failure)
   \<or> (\<exists>p i. addBlockPrepare e now s nb = Inr p \<and>
         addBlock e now s nb =
           (AddOk (AList.update ''_id'' i p),
            s\<lparr>blocksCollection := blocksCollection s @ [storedDocument i p],
              nextId := (if propOf p ''_id'' = JUndefined \<or> propOf p ''_id'' = JNull
                         then Suc (nextId s) else nextId s)\<rparr>))"
proof (cases "addBlockPrepare e now s nb")
  case (Inl failure)
  then have "failure = AddServerError \<or> (\<exists>v. failure = ChainDamaged v)"
    by (auto simp: addBlockPrepare_def Let_def split: if_splits attempt.splits)
  with Inl show ?thesis by (auto simp: addBlock_def)
next
  case (Inr p)
  from insertOne_cases[of e s p] show ?thesis
  proof
    assume "insertOne e s p = Threw"
    then show ?thesis using Inr by (simp add: addBlock_def addBlockCommit_def)
  next
    assume "\<exists>i. insertOne e s p =
      Returned (s\<lparr>blocksCollection := blocksCollection s @ [storedDocument i p],
                  nextId := (if propOf p ''_id'' = JUndefined \<or> propOf p ''_id'' = JNull
                             then Suc (nextId s) else nextId s)\<rparr>,
                AList.update ''_id'' i p)"
    then obtain i where "insertOne e s p =
      Returned (s\<lparr>blocksCollection := blocksCollection s @ [storedDocument i p],
                  nextId := (if propOf p ''_id'' = JUndefined \<or> propOf p ''_id'' = JNull
                             then Suc (nextId s) else nextId s)\<rparr>,
                AList.update ''_id'' i p)" ..
    then have "addBlock e now s nb =
           (AddOk (AList.update ''_id'' i p),
            s\<lparr>blocksCollection := blocksCollection s @ [storedDocument i p],
              nextId := (if propOf p ''_id'' = JUndefined \<or> propOf p ''_id'' = JNull
                         then Suc (nextId s) else nextId s)\<rparr>)"
      using Inr by (simp add: addBlock_def addBlockCommit_def)
    with Inr show ?thesis by blast
  qed
qed

lemma addBlock_shape:
  "snd (addBlock e now s nb) = s
   \<or> (\<exists>p i n. addBlockPrepare e now s nb = Inr p \<and>
         snd (addBlock e now s nb) =
           s\<lparr>blocksCollection := blocksCollection s @ [storedDocument i p], nextId := n\<rparr>)"
  using addBlock_cases[of e now s nb] by fastforce

lemma addBlock_keeps_chain:
  fixes e s now f nb
  assumes v: "\<forall>i<length (blocksCollection s). entryFailure e (blocksCollection s) i = None"
      and srt: "sorted_wrt (<) (map dateKey (blocksCollection s))"
      and late: "\<forall>b\<in>set (blocksCollection s). dateKey b < Some now"
      and stable: "bsonDoc nb = nb"
  defines "s' \<equiv> snd (addBlock (e\<lparr>dbThrows := f\<rparr>) now s nb)"
  shows "(\<forall>i<length (blocksCollection s'). entryFailure e (blocksCollection s') i = None)
       \<and> sorted_wrt (<) (map dateKey (blocksCollection s'))
       \<and> (\<forall>b\<in>set (blocksCollection s'). dateKey b \<le> Some now)"
proof -
  define bs where "bs = blocksCollection s"
  from addBlock_shape[of "e\<lparr>dbThrows := f\<rparr>" now s nb]
  have shape: "s' = s \<or> (\<exists>p i n. addBlockPrepare (e\<lparr>dbThrows := f\<rparr>) now s nb = Inr p \<and>
      s' = s\<lparr>blocksCollection := bs @ [storedDocument i p], nextId := n\<rparr>)"
    unfolding s'_def bs_def by auto
  then show ?thesis
  proof
    assume "s' = s"
    then show ?thesis using v srt late by (auto intro: less_imp_le)
  next
    assume "\<exists>p i n. addBlockPrepare (e\<lparr>dbThrows := f\<rparr>) now s nb = Inr p \<and>
      s' = s\<lparr>blocksCollection := bs @ [storedDocument i p], nextId := n\<rparr>"
    then obtain p i n where prep: "addBlockPrepare (e\<lparr>dbThrows := f\<rparr>) now s nb = Inr p"
      and s': "s' = s\<lparr>blocksCollection := bs @ [storedDocument i p], nextId := n\<rparr>"
      by blast
    define stored where "stored = storedDocument i p"
    define b2 where
      "b2 = AList.update ''creationDate'' (JDate (Some now))
              (AList.update ''previousHash'' (tailHash bs) nb)"
    have p: "p = AList.update ''hash'' (JStr (createHash e b2)) b2"
      using addBlockPrepare_Inr[OF prep] by (simp add: b2_def bs_def)
    have same: "bsonDoc p = p"
      using bsonDoc_prepared[OF prep] stable by (simp add: p b2_def bs_def propOf_update_same)
    have blocks: "blocksCollection s' = bs @ [stored]"
      using s' by (simp add: stored_def)
    have "propOf stored ''hash'' = propOf p ''hash''"
      unfolding stored_def by (rule stored_props(3)[OF prep])
    then have hash: "propOf stored ''hash'' = JStr (createHash e b2)"
      by (simp add: p propOf_update_same)
    have "createHash e stored = createHash e p"
      unfolding stored_def using createHash_cong[OF blockForHashing_stored, of e i p]
      by (simp add: same)
    also have "\<dots> = createHash e b2"
      unfolding p by (rule createHash_cong[OF blockForHashing_update_hash])
    finally have hm: "hashMatches e stored"
      using hash by (simp add: hashMatches_def)
    have date: "propOf stored ''creationDate'' = JDate (Some now)"
      unfolding stored_def by (rule stored_props(2)[OF prep])
    then have dk: "dateKey stored = Some now"
      by (simp add: dateKey_def)
    have prev: "propOf stored ''previousHash'' = tailHash bs"
      unfolding stored_def bs_def by (rule stored_props(1)[OF prep])
    have last_entry: "entryFailure e (bs @ [stored]) (length bs) = None"
    proof (cases "bs = []")
      case True
      then have "tailHash bs = JStr ''0''" by (simp add: tailHash_def)
      then show ?thesis using True hm prev by (simp add: entryFailure_def)
    next
      case False
      then have "latestBlock bs = Some (last bs)"
        using srt by (simp add: bs_def latestBlock_sorted)
      then have "tailHash bs = propOf (last bs) ''hash''" by (simp add: tailHash_def)
      moreover have "(bs @ [stored]) ! (length bs - 1) = last bs"
        using False by (simp add: nth_append last_conv_nth)
      ultimately show ?thesis using False hm prev by (simp add: entryFailure_def)
    qed
    have entries: "\<forall>j<length (bs @ [stored]). entryFailure e (bs @ [stored]) j = None"
    proof (intro allI impI)
      fix j assume "j < length (bs @ [stored])"
      then have "j < length bs \<or> j = length bs" by auto
      then show "entryFailure e (bs @ [stored]) j = None"
        using v last_entry by (auto simp: entryFailure_append bs_def)
    qed
    have sorted': "sorted_wrt (<) (map dateKey (bs @ [stored]))"
      using srt late dk by (simp add: sorted_wrt_append bs_def)
    have le: "\<forall>b\<in>set (bs @ [stored]). dateKey b \<le> Some now"
      using late dk by (auto simp: bs_def intro: less_imp_le)
    from entries sorted' le show ?thesis by (simp only: blocks)
  qed
qed

lemma appendAll_keeps_chain:
  assumes "\<forall>i<length (blocksCollection s). entryFailure e (blocksCollection s) i = None"
      and "sorted_wrt (<) (map dateKey (blocksCollection s))"
      and "\<forall>b\<in>set (blocksCollection s). \<forall>step\<in>set steps. dateKey b < Some (fst (snd step))"
      and "sorted_wrt (<) (map (\<lambda>step. fst (snd step)) steps)"
      and "\<forall>step\<in>set steps. bsonDoc (snd (snd step)) = snd (snd step)"
  shows "(\<forall>i<length (blocksCollection (appendAll e s steps)).
            entryFailure e (blocksCollection (appendAll e s steps)) i = None)
       \<and> sorted_wrt (<) (map dateKey (blocksCollection (appendAll e s steps)))"
  using assms
proof (induction steps arbitrary: s)
  case Nil
  then show ?case by simp
next
  case (Cons step steps)
  define s' where
    "s' = snd (addBlock (e\<lparr>dbThrows := fst step\<rparr>) (fst (snd step)) s (snd (snd step)))"
  have late: "\<forall>b\<in>set (blocksCollection s). dateKey b < Some (fst (snd step))"
    using Cons.prems(3) by simp
  have stable: "bsonDoc (snd (snd step)) = snd (snd step)"
    using Cons.prems(5) by simp
  from addBlock_keeps_chain[OF Cons.prems(1) Cons.prems(2) late stable, of "fst step"]
  have inv: "\<forall>i<length (blocksCollection s'). entryFailure e (blocksCollection s') i = None"
    and srt: "sorted_wrt (<) (map dateKey (blocksCollection s'))"
    and le: "\<forall>b\<in>set (blocksCollection s'). dateKey b \<le> Some (fst (snd step))"
    unfolding s'_def by simp_all
  have later: "\<forall>b\<in>set (blocksCollection s'). \<forall>st\<in>set steps. dateKey b < Some (fst (snd st))"
  proof (intro ballI)
    fix b st assume b: "b \<in> set (blocksCollection s')" and st: "st \<in> set steps"
    have "fst (snd step) < fst (snd st)" using Cons.prems(4) st by auto
    then have "Some (fst (snd step)) < Some (fst (snd st))" by simp
    with le b show "dateKey b < Some (fst (snd st))" by (blast intro: le_less_trans)
  qed
  have rest: "sorted_wrt (<) (map (\<lambda>step. fst (snd step)) steps)"
    using Cons.prems(4) by simp
  have stable': "\<forall>st\<in>set steps. bsonDoc (snd (snd st)) = snd (snd st)"
    using Cons.prems(5) by simp
  from Cons.IH[OF inv srt later rest stable'] show ?case
    by (simp add: s'_def)
qed












lemma addBlock_AddOk:
  assumes "addBlock e now s nb = (AddOk b, s')"
  shows "propOf b ''creationDate'' = JDate (Some now)
       \<and> (\<exists>stored. blocksCollection s' = blocksCollection s @ [stored] \<and> dateKey stored = Some now)"
proof -
  from addBlock_cases[of e now s nb] assms
  obtain p i where prep: "addBlockPrepare e now s nb = Inr p"
    and b: "b = AList.update ''_id'' i p"
    and s': "blocksCollection s' = blocksCollection s @ [storedDocument i p]"
    by auto
  have "propOf b ''creationDate'' = JDate (Some now)"
    using prepared_props(2)[OF prep] by (simp add: b propOf_update_other)
  moreover have "dateKey (storedDocument i p) = Some now"
    by (simp add: dateKey_def stored_props(2)[OF prep])
  ultimately show ?thesis using s' by blast
qed

lemma prepare_on_empty:
  "addBlockPrepare exampleEnv now emptyStore nb =
     Inr (AList.update ''hash''
            (JStr (createHash exampleEnv
               (AList.update ''creationDate'' (JDate (Some now))
                  (AList.update ''previousHash'' (JStr ''0'') nb))))
            (AList.update ''creationDate'' (JDate (Some now))
               (AList.update ''previousHash'' (JStr ''0'') nb)))"
  by (simp add: addBlockPrepare_def validateChain_def validateBlocks_def sortByCreationDate_def
        findLatest_def exampleEnv_def emptyStore_def Let_def)

lemma exampleEnv_insert_ok: "\<not> dbThrows exampleEnv DbInsertOne"
  by (simp add: exampleEnv_def)

lemma append_on_empty:
  "addBlock exampleEnv 10 emptyStore ballotU1 =
     (AddOk (addedBlock (fst (addBlock exampleEnv 10 emptyStore ballotU1))),
      snd (addBlock exampleEnv 10 emptyStore ballotU1))"
proof -
  have "propOf (AList.update ''hash''
            (JStr (createHash exampleEnv
               (AList.update ''creationDate'' (JDate (Some 10))
                  (AList.update ''previousHash'' (JStr ''0'') ballotU1))))
            (AList.update ''creationDate'' (JDate (Some 10))
               (AList.update ''previousHash'' (JStr ''0'') ballotU1))) ''_id'' = JUndefined"
    by (simp add: propOf_update_other) (simp add: propOf_def ballotU1_def)
  then show ?thesis
    by (simp add: addBlock_def prepare_on_empty addBlockCommit_def
          insertOne_no_id[OF exampleEnv_insert_ok])
qed

subsection \<open>C1: two appends on the same tail\<close>

text \<open>
  C1, as the code has it. addBlock commits with a plain \<^verbatim>\<open>insertOne\<close>: the insertion
  depends on nothing that was read before, there is no retry, and no result reports a
  conflict. When two calls have both prepared their block on the same store (both passed
  validation and read the same last block), the new blocks bring no \<^verbatim>\<open>_id\<close> (as in
  both handlers) and the insertion does not fail, both commit:
  the store ends with both blocks appended, and both carry the hash of the same tail as
  \<^verbatim>\<open>previousHash\<close>.
\<close>

theorem racing_appends_both_commit:
  assumes p1: "addBlockPrepare e now1 s nb1 = Inr p1"
      and p2: "addBlockPrepare e now2 s nb2 = Inr p2"
      and ins: "\<not> dbThrows e DbInsertOne"
      and id1: "propOf nb1 ''_id'' = JUndefined"
      and id2: "propOf nb2 ''_id'' = JUndefined"
  shows "\<exists>b1 b2 stored1 stored2 n.
           addBlockRace e s now1 nb1 now2 nb2 =
             (AddOk b1, AddOk b2,
              s\<lparr>blocksCollection := blocksCollection s @ [stored1, stored2], nextId := n\<rparr>)
           \<and> propOf stored1 ''previousHash'' = tailHash (blocksCollection s)
           \<and> propOf stored2 ''previousHash'' = tailHash (blocksCollection s)"
proof -
  define st1 where "st1 = storedDocument (JOid (nextId s)) p1"
  define st2 where "st2 = storedDocument (JOid (Suc (nextId s))) p2"
  define s1 where "s1 = s\<lparr>blocksCollection := blocksCollection s @ [st1], nextId := Suc (nextId s)\<rparr>"
  have i1: "propOf p1 ''_id'' = JUndefined" using prepared_props(3)[OF p1] id1 by simp
  have i2: "propOf p2 ''_id'' = JUndefined" using prepared_props(3)[OF p2] id2 by simp
  have c1: "addBlockCommit e s p1 = (AddOk (AList.update ''_id'' (JOid (nextId s)) p1), s1)"
    by (simp add: addBlockCommit_def insertOne_no_id[OF ins i1] s1_def st1_def)
  have c2: "addBlockCommit e s1 p2 =
      (AddOk (AList.update ''_id'' (JOid (Suc (nextId s))) p2),
       s\<lparr>blocksCollection := blocksCollection s @ [st1, st2], nextId := Suc (Suc (nextId s))\<rparr>)"
    by (simp add: addBlockCommit_def insertOne_no_id[OF ins i2] s1_def st2_def)
  have run: "addBlockRace e s now1 nb1 now2 nb2 =
      (AddOk (AList.update ''_id'' (JOid (nextId s)) p1),
       AddOk (AList.update ''_id'' (JOid (Suc (nextId s))) p2),
       s\<lparr>blocksCollection := blocksCollection s @ [st1, st2], nextId := Suc (Suc (nextId s))\<rparr>)"
    by (simp add: addBlockRace_def p1 p2 c1 c2)
  have l1: "propOf st1 ''previousHash'' = tailHash (blocksCollection s)"
    unfolding st1_def by (rule stored_props(1)[OF p1])
  have l2: "propOf st2 ''previousHash'' = tailHash (blocksCollection s)"
    unfolding st2_def by (rule stored_props(1)[OF p2])
  from run l1 l2 show ?thesis by blast
qed

theorem racing_appends_both_commit_witness:
  "\<exists>b1 b2 stored1 stored2 n.
      addBlockRace exampleEnv emptyStore 10 ballotU1 11 ballotU2 =
        (AddOk b1, AddOk b2,
         emptyStore\<lparr>blocksCollection := blocksCollection emptyStore @ [stored1, stored2],
                    nextId := n\<rparr>)
      \<and> propOf stored1 ''previousHash'' = tailHash (blocksCollection emptyStore)
      \<and> propOf stored2 ''previousHash'' = tailHash (blocksCollection emptyStore)"
proof -
  have i1: "propOf ballotU1 ''_id'' = JUndefined" by (simp add: ballotU1_def propOf_def)
  have i2: "propOf ballotU2 ''_id'' = JUndefined" by (simp add: ballotU2_def propOf_def)
  show ?thesis
    by (rule racing_appends_both_commit
          [OF prepare_on_empty prepare_on_empty exampleEnv_insert_ok i1 i2])
qed

text \<open>
  The claim C1 fails: on the empty store two racing appends both succeed, both stored
  blocks link to \<^verbatim>\<open>"0"\<close>, and the store no longer passes validateChain.
\<close>

theorem racing_appends_fork_counterexample:
  "(case addBlockRace exampleEnv emptyStore 10 ballotU1 11 ballotU2 of
      (result1, result2, s) \<Rightarrow>
        isAddOk result1 \<and> isAddOk result2
        \<and> map (\<lambda>b. propOf b ''previousHash'') (blocksCollection s) = [JStr ''0'', JStr ''0'']
        \<and> \<not> valid (validateChain exampleEnv s))"
  by code_simp

subsection \<open>C2: uniqueness of vote definitions and ballots\<close>




subsection \<open>C3: a failed identity lookup\<close>

text \<open>
  C3, as the code has it. When getUserRole yields \<^verbatim>\<open>null\<close> (the user is unknown, or the
  lookup and the request to the auth server both failed), \<^verbatim>\<open>/create_vote\<close> rejects the
  request and stores nothing, and canUserVote never answers that the voter is an
  administrator: it decides exactly as for a resolved ordinary user, by the remaining
  checks alone.
\<close>

theorem unresolved_identity_is_not_admin:
  assumes "getUserRole e u = JNull"
  shows "(cvCreatorId r = u \<longrightarrow>
            postCreateVote e now appendTime s r = (CreateBadRequest, s)
          \<or> postCreateVote e now appendTime s r = (CreateForbidden, s))
       \<and> canUserVote e now s u v \<noteq> CannotVote AdminsCannotVote
       \<and> canUserVote e now s u v = canUserVote (e\<lparr>usersFindOne := \<lambda>u. UserFound []\<rparr>) now s u v"
proof -
  have a: "cvCreatorId r = u \<longrightarrow>
            postCreateVote e now appendTime s r = (CreateBadRequest, s)
          \<or> postCreateVote e now appendTime s r = (CreateForbidden, s)"
    using assms by (simp add: postCreateVote_def createCheck_def)
  have c: "canUserVote e now s u v = canUserVote (e\<lparr>usersFindOne := \<lambda>u. UserFound []\<rparr>) now s u v"
    using assms
    by (simp add: canUserVote_def getUserRole_ordinary ordinary_status
          cong: attempt.case_cong option.case_cong)
  have b: "canUserVote e now s u v \<noteq> CannotVote AdminsCannotVote"
    using assms
    by (auto simp: canUserVote_def split: attempt.splits option.splits if_splits)
  from a b c show ?thesis by blast
qed

theorem unresolved_identity_is_not_admin_witness:
  "getUserRole exampleEnv ''u9'' = JNull
   \<and> (postCreateVote exampleEnv 500 510 storeV1 (requestV1\<lparr>cvCreatorId := ''u9''\<rparr>)
         = (CreateBadRequest, storeV1)
      \<or> postCreateVote exampleEnv 500 510 storeV1 (requestV1\<lparr>cvCreatorId := ''u9''\<rparr>)
         = (CreateForbidden, storeV1))
   \<and> canUserVote exampleEnv 500 storeV1 ''u9'' ''v1'' \<noteq> CannotVote AdminsCannotVote"
proof -
  have h: "getUserRole exampleEnv ''u9'' = JNull"
    by code_simp
  have r: "cvCreatorId (requestV1\<lparr>cvCreatorId := ''u9''\<rparr>) = ''u9''"
    by simp
  from unresolved_identity_is_not_admin
         [OF h, where r = "requestV1\<lparr>cvCreatorId := ''u9''\<rparr>" and now = 500
            and appendTime = 510 and s = storeV1 and v = "''v1''"] h r
  show ?thesis by blast
qed

text \<open>
  The claim C3 fails for ballots: for the voter \<^verbatim>\<open>u9\<close> the direct lookup throws and
  the request to the auth server fails, and the ballot is accepted and stored.
\<close>

theorem unresolved_voter_may_vote_counterexample:
  "getUserRole exampleEnv ''u9'' = JNull
   \<and> canUserVote exampleEnv 500 storeV1 ''u9'' ''v1'' = CanVote (hd (blocksCollection storeV1))
   \<and> length (blocksCollection storeV1) = 1
   \<and> length (blocksCollection (snd (postVote exampleEnv 500 510 storeV1 ''u9'' ''v1'' (JStr ''A'')))) = 2"
  by code_simp

subsection \<open>C4: the chain validator\<close>

text \<open>
  C4. On the empty sequence the validator answers valid. On any other sequence its
  answer is the verdict of the specification: the first entry, in order, that fails I1
  (reason: the hash does not match the content) or its link (for entry 0 the genesis
  link, for a later entry the link to the hash of the entry before it), with that
  entry's index; it answers valid exactly when every entry passes. validateChain runs
  this on the blocks sorted by \<^verbatim>\<open>creationDate\<close>.
\<close>

theorem validateBlocks_refines_validateSpec:
  "validateBlocks e [] = \<lparr>valid = True, message = ChainEmptyMsg, blockIndex = None\<rparr>
   \<and> verdictOf (validateBlocks e es) = validateSpec e es
   \<and> (valid (validateBlocks e es) \<longleftrightarrow> (\<forall>i<length es. entryFailure e es i = None))
   \<and> (\<not> dbThrows e DbFind \<longrightarrow>
        validateChain e s = validateBlocks e (sortByCreationDate (blocksCollection s)))"
  using validateBlocks_spec[of e es] validateBlocks_valid_iff[of e es]
  by (simp add: validateBlocks_def validateChain_def)

theorem validateBlocks_refines_validateSpec_witness:
  "\<not> dbThrows exampleEnv DbFind
   \<and> verdictOf (validateBlocks exampleEnv (blocksCollection tamperedStore))
       = Invalid 0 ContentHashMismatch
   \<and> verdictOf (validateBlocks exampleEnv (blocksCollection storeV1 @ blocksCollection storeV1))
       = Invalid 1 BrokenLinkage
   \<and> verdictOf (validateBlocks exampleEnv (blocksCollection storeV1)) = Valid
   \<and> validateChain exampleEnv storeV1
       = validateBlocks exampleEnv (sortByCreationDate (blocksCollection storeV1))"
proof -
  have a: "validateSpec exampleEnv (blocksCollection tamperedStore) = Invalid 0 ContentHashMismatch"
    by code_simp
  have b: "validateSpec exampleEnv (blocksCollection storeV1 @ blocksCollection storeV1)
           = Invalid 1 BrokenLinkage"
    by code_simp
  have c: "validateSpec exampleEnv (blocksCollection storeV1) = Valid"
    by code_simp
  from validateBlocks_refines_validateSpec
         [of exampleEnv "blocksCollection tamperedStore" storeV1]
       validateBlocks_refines_validateSpec
         [of exampleEnv "blocksCollection storeV1 @ blocksCollection storeV1" storeV1]
       validateBlocks_refines_validateSpec
         [of exampleEnv "blocksCollection storeV1" storeV1]
       a b c exampleEnv_find_ok
  show ?thesis by simp
qed

subsection \<open>C5: the key that orders the chain\<close>

text \<open>
  C5, as the code has it. There is no sequence position: a block that addBlock stores
  carries as \<^verbatim>\<open>creationDate\<close> the reading of the server's clock at the time of the
  call, so the keys of the stored blocks are the clock readings of the successful
  appends, in order. validateChain orders the blocks by that key and nothing else, and
  the block that addBlock links to is one with the greatest key.
\<close>

theorem creationDate_orders_the_chain:
  "(addBlock e now s nb = (AddOk b, s') \<longrightarrow>
      propOf b ''creationDate'' = JDate (Some now)
      \<and> map dateKey (blocksCollection s') = map dateKey (blocksCollection s) @ [Some now])
   \<and> (\<not> dbThrows e DbFind \<longrightarrow>
        validateChain e s = validateBlocks e (sort_key dateKey (blocksCollection s)))
   \<and> (\<not> dbThrows e DbFindOne \<longrightarrow> findLatest e s = Returned (latestBlock (blocksCollection s)))
   \<and> (latestBlock (blocksCollection s) = Some m \<longrightarrow>
        m \<in> set (blocksCollection s) \<and> (\<forall>x\<in>set (blocksCollection s). dateKey x \<le> dateKey m))"
proof -
  have a: "addBlock e now s nb = (AddOk b, s') \<longrightarrow>
      propOf b ''creationDate'' = JDate (Some now)
      \<and> map dateKey (blocksCollection s') = map dateKey (blocksCollection s) @ [Some now]"
    using addBlock_AddOk[of e now s nb b s'] by auto
  have c: "latestBlock (blocksCollection s) = Some m \<longrightarrow>
        m \<in> set (blocksCollection s) \<and> (\<forall>x\<in>set (blocksCollection s). dateKey x \<le> dateKey m)"
    using latestBlock_max[of "blocksCollection s" m] by blast
  from a c show ?thesis
    by (simp add: validateChain_def sortByCreationDate_def findLatest_def)
qed

theorem creationDate_orders_the_chain_witness:
  "\<not> dbThrows exampleEnv DbFind \<and> \<not> dbThrows exampleEnv DbFindOne
   \<and> propOf (addedBlock (fst (addBlock exampleEnv 10 emptyStore ballotU1))) ''creationDate''
       = JDate (Some 10)
   \<and> map dateKey (blocksCollection (snd (addBlock exampleEnv 10 emptyStore ballotU1))) = [Some 10]
   \<and> findLatest exampleEnv emptyStore = Returned None"
proof -
  have f: "\<not> dbThrows exampleEnv DbFindOne" by (simp add: exampleEnv_def)
  from creationDate_orders_the_chain
         [of exampleEnv 10 emptyStore ballotU1
             "addedBlock (fst (addBlock exampleEnv 10 emptyStore ballotU1))"
             "snd (addBlock exampleEnv 10 emptyStore ballotU1)"]
       append_on_empty exampleEnv_find_ok f
  show ?thesis by (simp add: emptyStore_def)
qed

text \<open>
  The claim C5 fails: two sequential appends that read the same time from the clock
  both succeed and store two blocks with the same ordering key.
\<close>

theorem same_clock_reading_counterexample:
  "map dateKey (blocksCollection (appendAll exampleEnv emptyStore stepsSameClock)) = [Some 10, Some 10]"
  by code_simp

subsection \<open>C6: what createHash depends on\<close>

text \<open>
  C6, as the code has it. createHash is a function of the block's top-level fields
  other than \<^verbatim>\<open>hash\<close> and \<^verbatim>\<open>_id\<close>: two blocks with the same fields (each name once)
  in a different insertion order have the same hash, and setting \<^verbatim>\<open>hash\<close> or \<^verbatim>\<open>_id\<close>
  does not change it. The values are serialized as they are: an array in its own
  order, and an object inside a field in its own insertion order.
\<close>

theorem createHash_top_level_order_independent:
  assumes "distinct (map fst b)" and "mset b' = mset b"
  shows "createHash e b' = createHash e b
       \<and> createHash e (AList.update ''hash'' h b) = createHash e b
       \<and> createHash e (AList.update ''_id'' i b) = createHash e b"
  using orderedBlock_permutation[OF assms]
        createHash_cong[OF blockForHashing_update_hash, of e h b]
        createHash_cong[OF blockForHashing_update_id, of e i b]
  by (simp add: createHash_def hashInput_def)

theorem createHash_top_level_order_independent_witness:
  "distinct (map fst nestedAB) \<and> mset (rev nestedAB) = mset nestedAB
   \<and> createHash exampleEnv (rev nestedAB) = createHash exampleEnv nestedAB
   \<and> createHash exampleEnv (AList.update ''hash'' (JStr ''x'') nestedAB) = createHash exampleEnv nestedAB
   \<and> createHash exampleEnv (AList.update ''_id'' (JOid 7) nestedAB) = createHash exampleEnv nestedAB
   \<and> hashInput exampleEnv [(''options'', JArr [JStr ''A'', JStr ''B''])]
       \<noteq> hashInput exampleEnv [(''options'', JArr [JStr ''B'', JStr ''A''])]"
proof -
  have d: "distinct (map fst nestedAB)" by (simp add: nestedAB_def)
  have m: "mset (rev nestedAB) = mset nestedAB" by simp
  have arrays: "hashInput exampleEnv [(''options'', JArr [JStr ''A'', JStr ''B''])]
       \<noteq> hashInput exampleEnv [(''options'', JArr [JStr ''B'', JStr ''A''])]"
    by (simp add: hashInput_def orderedBlock_def blockForHashing_def propOf_def quoteJSON_def
          escapeChar_def)
  from createHash_top_level_order_independent[OF d m, of exampleEnv "JStr ''x''" "JOid 7"] d m arrays
  show ?thesis by simp
qed

text \<open>
  The claim C6 fails for objects inside a field: createHash sorts the top-level keys
  only, so two blocks that differ only in the insertion order of the keys of \<^verbatim>\<open>title\<close>
  are serialized differently and get different hashes.
\<close>

theorem createHash_nested_order_counterexample:
  "propOf nestedAB ''title'' = JObj [(''a'', JNum 1), (''b'', JNum 2)]
   \<and> propOf nestedBA ''title'' = JObj [(''b'', JNum 2), (''a'', JNum 1)]
   \<and> map_of [(''a'', JNum 1), (''b'', JNum 2)] = map_of [(''b'', JNum 2), (''a'', JNum 1)]
   \<and> hashInput exampleEnv nestedAB \<noteq> hashInput exampleEnv nestedBA
   \<and> createHash exampleEnv nestedAB \<noteq> createHash exampleEnv nestedBA"
  by (simp add: nestedAB_def nestedBA_def propOf_def fun_eq_iff createHash_def hashInput_def
        orderedBlock_def blockForHashing_def exampleEnv_def markDigest_def quoteJSON_def
        escapeChar_def decInt_def digitChar_def)

subsection \<open>C7: chains built by sequential appends\<close>

text \<open>
  C7, as the code has it. addBlock orders the chain by the clock reading it stores in
  \<^verbatim>\<open>creationDate\<close>, and hashes the block before the driver encodes it. When the blocks
  are appended one after the other from the empty store, every reading of the clock is
  later than the one before, and every new block is stored as it is (it holds no
  \<^verbatim>\<open>undefined\<close> and no Invalid Date), validateChain answers valid for the resulting
  store, whichever calls to the collection failed on the way: the first stored block
  links to \<^verbatim>\<open>"0"\<close>, every later one to the hash of the block before it, and every stored
  hash is the hash of the stored block.
\<close>

theorem sequential_appends_pass_validation:
  fixes e steps
  assumes "sorted_wrt (<) (map (\<lambda>step. fst (snd step)) steps)"
      and "\<forall>step\<in>set steps. bsonDoc (snd (snd step)) = snd (snd step)"
      and "\<not> dbThrows e DbFind"
  defines "bs \<equiv> blocksCollection (appendAll e emptyStore steps)"
  shows "valid (validateChain e (appendAll e emptyStore steps))
       \<and> (bs \<noteq> [] \<longrightarrow> propOf (bs ! 0) ''previousHash'' = JStr ''0'')
       \<and> (\<forall>i. Suc i < length bs \<longrightarrow> propOf (bs ! Suc i) ''previousHash'' = propOf (bs ! i) ''hash'')
       \<and> (\<forall>b \<in> set bs. propOf b ''hash'' = JStr (createHash e b))"
proof -
  have "(\<forall>i<length bs. entryFailure e bs i = None) \<and> sorted_wrt (<) (map dateKey bs)"
    unfolding bs_def
    by (rule appendAll_keeps_chain) (use assms(1,2) in \<open>simp_all add: emptyStore_def\<close>)
  then have ok: "\<forall>i<length bs. entryFailure e bs i = None"
    and srt: "sorted_wrt (<) (map dateKey bs)" by simp_all
  have "valid (validateBlocks e bs)"
    using ok by (simp add: validateBlocks_valid_iff)
  then have v: "valid (validateChain e (appendAll e emptyStore steps))"
    using assms(3) srt by (simp add: validateChain_def sortByCreationDate_sorted bs_def)
  have g: "bs \<noteq> [] \<longrightarrow> propOf (bs ! 0) ''previousHash'' = JStr ''0''"
  proof
    assume "bs \<noteq> []"
    then have "entryFailure e bs 0 = None" using ok by simp
    then show "propOf (bs ! 0) ''previousHash'' = JStr ''0''"
      by (simp add: entryFailure_def split: if_splits)
  qed
  have l: "\<forall>i. Suc i < length bs \<longrightarrow> propOf (bs ! Suc i) ''previousHash'' = propOf (bs ! i) ''hash''"
  proof (intro allI impI)
    fix i assume "Suc i < length bs"
    then have "entryFailure e bs (Suc i) = None" using ok by simp
    then show "propOf (bs ! Suc i) ''previousHash'' = propOf (bs ! i) ''hash''"
      by (simp add: entryFailure_def split: if_splits)
  qed
  have h: "\<forall>b \<in> set bs. propOf b ''hash'' = JStr (createHash e b)"
  proof
    fix b assume "b \<in> set bs"
    then obtain i where "i < length bs" "bs ! i = b" by (auto simp: in_set_conv_nth)
    moreover from this have "entryFailure e bs i = None" using ok by simp
    ultimately show "propOf b ''hash'' = JStr (createHash e b)"
      by (auto simp: entryFailure_def hashMatches_def split: if_splits)
  qed
  from v g l h show ?thesis by blast
qed

theorem sequential_appends_pass_validation_witness:
  "sorted_wrt (<) (map (\<lambda>step. fst (snd step)) stepsForward)
   \<and> bsonDoc ballotU1 = ballotU1 \<and> bsonDoc ballotU2 = ballotU2
   \<and> \<not> dbThrows exampleEnv DbFind
   \<and> length (blocksCollection (appendAll exampleEnv emptyStore stepsForward)) = 2
   \<and> valid (validateChain exampleEnv (appendAll exampleEnv emptyStore stepsForward))"
proof -
  have a: "sorted_wrt (<) (map (\<lambda>step. fst (snd step)) stepsForward)"
    by (simp add: stepsForward_def)
  have s1: "bsonDoc ballotU1 = ballotU1" by (simp add: bsonDoc_def ballotU1_def)
  have s2: "bsonDoc ballotU2 = ballotU2" by (simp add: bsonDoc_def ballotU2_def)
  have st: "\<forall>step\<in>set stepsForward. bsonDoc (snd (snd step)) = snd (snd step)"
    using s1 s2 by (simp add: stepsForward_def)
  have b: "length (blocksCollection (appendAll exampleEnv emptyStore stepsForward)) = 2"
    by code_simp
  from sequential_appends_pass_validation [OF a st exampleEnv_find_ok] a s1 s2 b exampleEnv_find_ok
  show ?thesis by simp
qed

text \<open>
  The claim C7 fails in two ways. When the clock does not run forward: two sequential
  appends, the second with an earlier reading of the clock (the clock was set back in
  between), both succeed; validateChain then reads the second block first and reports
  it, at index 0, for not linking to \<^verbatim>\<open>"0"\<close>. And when a block is not stored as it was
  hashed: \<^verbatim>\<open>POST /create_vote\<close> with the end date \<^verbatim>\<open>"soon"\<close> appends a block that was
  hashed with an Invalid Date (written \<^verbatim>\<open>null\<close>) and is stored with the date 1970-01-01;
  validateChain reports this single block, at index 0, for a hash that does not match.
\<close>

theorem sequential_appends_counterexample:
  "length (blocksCollection (appendAll exampleEnv emptyStore stepsClockBack)) = 2
   \<and> \<not> valid (validateChain exampleEnv (appendAll exampleEnv emptyStore stepsClockBack))
   \<and> blockIndex (validateChain exampleEnv (appendAll exampleEnv emptyStore stepsClockBack)) = Some 0
   \<and> message (validateChain exampleEnv (appendAll exampleEnv emptyStore stepsClockBack))
       = FirstBlockPreviousHashMsg (JOid 1)
   \<and> (case postCreateVote exampleEnv 50 60 emptyStore requestSoon of
        (response, s) \<Rightarrow>
          map (\<lambda>b. propOf b ''endDate'') (blocksCollection s) = [JDate (Some 0)]
          \<and> propOf (createdBlock response) ''endDate'' = JDate None
          \<and> \<not> valid (validateChain exampleEnv s)
          \<and> blockIndex (validateChain exampleEnv s) = Some 0
          \<and> message (validateChain exampleEnv s) = FirstBlockHashMsg (JOid 0))"
  by code_simp

subsection \<open>C8: the end of the voting window\<close>

text \<open>
  C8 (the claim: a ballot at exactly \<^verbatim>\<open>endDate\<close> is rejected). canUserVote tests
  \<^verbatim>\<open>new Date(voteBlock.endDate) < now\<close>, so at \<^verbatim>\<open>now = endDate\<close> it still lets the voter
  vote, while \<^verbatim>\<open>isActive\<close> of \<^verbatim>\<open>/results\<close> (\<^verbatim>\<open>endDate > now\<close>) already reports the vote
  as over. One millisecond later the ballot is rejected.
\<close>

theorem canUserVote_accepts_at_endDate:
  "length (blocksCollection storeV1) = 1
   \<and> propOf (hd (blocksCollection storeV1)) ''endDate'' = JDate (Some 1000)
   \<and> canUserVote exampleEnv 1000 storeV1 ''u1'' ''v1'' = CanVote (hd (blocksCollection storeV1))
   \<and> \<not> resultsIsActive exampleEnv 1000 (hd (blocksCollection storeV1))
   \<and> canUserVote exampleEnv 1001 storeV1 ''u1'' ''v1'' = CannotVote VotingEnded"
  by code_simp

subsection \<open>C9: an append stores one block or nothing\<close>

text \<open>
  C9. When validateChain reports the chain invalid, addBlock fails with its
  chain-damaged error, carrying the validator's result, and stores nothing. In general
  every call of addBlock either appends exactly one document after the unchanged
  existing ones (the document has the fields of the returned block, as the driver
  encodes them) or leaves the collection as it was.
\<close>

theorem addBlock_persists_one_or_nothing:
  "(\<not> valid (validateChain e s) \<longrightarrow>
      addBlock e now s nb = (ChainDamaged (validateChain e s), s))
   \<and> ((\<exists>stored b n. addBlock e now s nb =
          (AddOk b, s\<lparr>blocksCollection := blocksCollection s @ [stored], nextId := n\<rparr>)
          \<and> map_of stored = map_of (bsonDoc b))
       \<or> (\<exists>v. addBlock e now s nb = (ChainDamaged v, s))
       \<or> addBlock e now s nb = (AddServerError, s))"
proof -
  have first: "\<not> valid (validateChain e s) \<longrightarrow>
      addBlock e now s nb = (ChainDamaged (validateChain e s), s)"
    by (simp add: addBlock_def addBlockPrepare_def Let_def)
  have second: "(\<exists>stored b n. addBlock e now s nb =
          (AddOk b, s\<lparr>blocksCollection := blocksCollection s @ [stored], nextId := n\<rparr>)
          \<and> map_of stored = map_of (bsonDoc b))
       \<or> (\<exists>v. addBlock e now s nb = (ChainDamaged v, s))
       \<or> addBlock e now s nb = (AddServerError, s)"
  proof (cases "addBlockPrepare e now s nb")
    case (Inl failure)
    then have "failure = AddServerError \<or> (\<exists>v. failure = ChainDamaged v)"
      by (auto simp: addBlockPrepare_def Let_def split: if_splits attempt.splits)
    with Inl show ?thesis by (auto simp: addBlock_def)
  next
    case (Inr prepared)
    from insertOne_cases[of e s prepared] show ?thesis
    proof
      assume "insertOne e s prepared = Threw"
      with Inr show ?thesis by (simp add: addBlock_def addBlockCommit_def)
    next
      assume "\<exists>i. insertOne e s prepared =
        Returned (s\<lparr>blocksCollection := blocksCollection s @ [storedDocument i prepared],
                  nextId := (if propOf prepared ''_id'' = JUndefined \<or> propOf prepared ''_id'' = JNull
                             then Suc (nextId s) else nextId s)\<rparr>,
                AList.update ''_id'' i prepared)"
      then obtain i where "insertOne e s prepared =
        Returned (s\<lparr>blocksCollection := blocksCollection s @ [storedDocument i prepared],
                  nextId := (if propOf prepared ''_id'' = JUndefined \<or> propOf prepared ''_id'' = JNull
                             then Suc (nextId s) else nextId s)\<rparr>,
                AList.update ''_id'' i prepared)" ..
      with Inr have run: "addBlock e now s nb =
          (AddOk (AList.update ''_id'' i prepared),
           s\<lparr>blocksCollection := blocksCollection s @ [storedDocument i prepared],
                  nextId := (if propOf prepared ''_id'' = JUndefined \<or> propOf prepared ''_id'' = JNull
                             then Suc (nextId s) else nextId s)\<rparr>)"
        by (simp add: addBlock_def addBlockCommit_def)
      have "\<exists>stored b n. addBlock e now s nb =
          (AddOk b, s\<lparr>blocksCollection := blocksCollection s @ [stored], nextId := n\<rparr>)
          \<and> map_of stored = map_of (bsonDoc b)"
        by (intro exI conjI, rule run, rule map_of_stored)
      then show ?thesis ..
    qed
  qed
  from first second show ?thesis ..
qed

theorem addBlock_persists_one_or_nothing_witness:
  "\<not> valid (validateChain exampleEnv tamperedStore)
   \<and> addBlock exampleEnv 70 tamperedStore ballotU1 =
       (ChainDamaged (validateChain exampleEnv tamperedStore), tamperedStore)
   \<and> blockIndex (validateChain exampleEnv tamperedStore) = Some 0"
proof -
  have h: "\<not> valid (validateChain exampleEnv tamperedStore)
           \<and> blockIndex (validateChain exampleEnv tamperedStore) = Some 0"
    by code_simp
  with addBlock_persists_one_or_nothing [of exampleEnv tamperedStore 70 ballotU1]
  show ?thesis by blast
qed

subsection \<open>C10: the chain listing\<close>

text \<open>
  C10. \<^verbatim>\<open>GET /chain\<close> with a groupId returns, in stored order, every block whose type is
  not \<^verbatim>\<open>create_vote\<close> (every ballot in particular) and exactly those \<^verbatim>\<open>create_vote\<close>
  blocks whose \<^verbatim>\<open>groupIds\<close> is an array containing \<^verbatim>\<open>"all"\<close> or the caller's groupId;
  without a groupId it returns all blocks. The handler tests \<^verbatim>\<open>!userGroupId\<close>, so an
  empty groupId counts as none.
\<close>

theorem getChain_filters_vote_definitions:
  assumes "\<not> dbThrows e DbFind"
  shows "getChain e s None = ChainBlocks (blocksCollection s)
       \<and> getChain e s (Some []) = ChainBlocks (blocksCollection s)
       \<and> (g \<noteq> [] \<longrightarrow>
            getChain e s (Some g) =
              ChainBlocks (filter (\<lambda>b. propOf b ''type'' \<noteq> JStr ''create_vote'' \<or>
                  (\<exists>gs. propOf b ''groupIds'' = JArr gs \<and>
                        (JStr ''all'' \<in> set gs \<or> JStr g \<in> set gs)))
                (blocksCollection s)))"
  using assms by (auto simp: getChain_def blockVisible_iff intro!: filter_cong)

theorem getChain_filters_vote_definitions_witness:
  "\<not> dbThrows exampleEnv DbFind
   \<and> getChain exampleEnv listingStore None = ChainBlocks [voteDefG1, ballotU1, voteDefAll]
   \<and> getChain exampleEnv listingStore (Some ''g2'') = ChainBlocks [ballotU1, voteDefAll]
   \<and> getChain exampleEnv listingStore (Some ''g1'') = ChainBlocks [voteDefG1, ballotU1, voteDefAll]"
  using getChain_filters_vote_definitions [OF exampleEnv_find_ok, of listingStore "''g2''"]
        getChain_filters_vote_definitions [OF exampleEnv_find_ok, of listingStore "''g1''"]
  by (simp add: exampleEnv_def listingStore_def voteDefG1_def ballotU1_def voteDefAll_def
        propOf_def)

end
